theory Spec2Isabelle
  imports Main "HOL-Library.Word"
begin

section \<open>Go values\<close>

text \<open>
  Go's \<open>int\<close> on a 64-bit platform: a 64-bit word, read as two's complement by \<open>sint\<close>.
  Addition wraps around, as Go's does.
\<close>

type_synonym go_int = "64 word"

text \<open>
  A value of type \<open>interface{}\<close>. \<open>VNil\<close> is the nil interface, the only value for which
  the source's tests \<open>== nil\<close> succeed; \<open>VTypedNil\<close> is a nil pointer stored in an
  interface, which is not equal to nil.
\<close>

datatype val = VNil | VInt int | VStr string | VBool bool | VTypedNil

section \<open>Library functions of Go used by the query builder\<close>

text \<open>\<open>strings.Join\<close>.\<close>

fun Join_s :: "string list \<Rightarrow> string \<Rightarrow> string" where
  "Join_s [] sep = []"
| "Join_s [x] sep = x"
| "Join_s (x # y # ys) sep = x @ sep @ Join_s (y # ys) sep"

text \<open>The verb \<open>%d\<close> of \<open>fmt.Sprintf\<close>: a decimal numeral, with a sign when negative.\<close>

fun digits10 :: "nat \<Rightarrow> string" where
  "digits10 n =
     (if n < 10 then [''0123456789'' ! n]
      else digits10 (n div 10) @ [''0123456789'' ! (n mod 10)])"

declare digits10.simps [simp del]

definition fmt_d :: "go_int \<Rightarrow> string" where
  "fmt_d i = (if sint i < 0 then CHR ''-'' # digits10 (nat (- sint i)) else digits10 (nat (sint i)))"

text \<open>
  \<open>strings.Fields\<close> splits a string around runs of white space, as \<open>unicode.IsSpace\<close>
  defines it. Strings are byte sequences holding UTF-8, so a white-space rune is one of the six
  ASCII bytes, or one of the multi-byte encodings of U+0085, U+00A0, U+1680, U+2000 to U+200A,
  U+2028, U+2029, U+202F, U+205F and U+3000. \<open>space_len\<close> is the number of bytes of the
  white-space rune at the head of a string, and 0 when there is none. None of the multi-byte
  encodings starts with a continuation byte, so scanning byte by byte finds the same runes
  as Go's decoder does.
\<close>

definition ascii_space :: "char \<Rightarrow> bool" where
  "ascii_space c =
     (c = CHR 0x09 \<or> c = CHR 0x0A \<or> c = CHR 0x0B \<or> c = CHR 0x0C \<or> c = CHR 0x0D \<or> c = CHR 0x20)"

fun space_len :: "string \<Rightarrow> nat" where
  "space_len [] = 0"
| "space_len [c] = (if ascii_space c then 1 else 0)"
| "space_len [c, d] =
     (if ascii_space c then 1
      else if c = CHR 0xC2 \<and> (d = CHR 0x85 \<or> d = CHR 0xA0) then 2
      else 0)"
| "space_len (c # d # e # r) =
     (if ascii_space c then 1
      else if c = CHR 0xC2 \<and> (d = CHR 0x85 \<or> d = CHR 0xA0) then 2
      else if c = CHR 0xE1 \<and> d = CHR 0x9A \<and> e = CHR 0x80 then 3
      else if c = CHR 0xE2 \<and> d = CHR 0x80 \<and>
              ((128 :: nat) \<le> of_char e \<and> of_char e \<le> (138 :: nat)
               \<or> e = CHR 0xA8 \<or> e = CHR 0xA9 \<or> e = CHR 0xAF) then 3
      else if c = CHR 0xE2 \<and> d = CHR 0x81 \<and> e = CHR 0x9F then 3
      else if c = CHR 0xE3 \<and> d = CHR 0x80 \<and> e = CHR 0x80 then 3
      else 0)"

text \<open>
  \<open>space_mask k s\<close> marks the bytes of \<open>s\<close> that belong to a white-space rune; \<open>k\<close> is
  the number of bytes still owed to a rune that has started.
\<close>

fun space_mask :: "nat \<Rightarrow> string \<Rightarrow> bool list" where
  "space_mask k [] = []"
| "space_mask k (c # cs) =
     (if 0 < k then True # space_mask (k - 1) cs
      else if 0 < space_len (c # cs) then True # space_mask (space_len (c # cs) - 1) cs
      else False # space_mask 0 cs)"

fun split_fields :: "string \<Rightarrow> (char \<times> bool) list \<Rightarrow> string list" where
  "split_fields cur [] = (if cur = [] then [] else [cur])"
| "split_fields cur ((c, sp) # r) =
     (if sp then (if cur = [] then split_fields [] r else cur # split_fields [] r)
      else split_fields (cur @ [c]) r)"

definition Fields :: "string \<Rightarrow> string list" where
  "Fields s = split_fields [] (zip s (space_mask 0 s))"

text \<open>A byte beyond ASCII: a byte of a multi-byte UTF-8 sequence.\<close>

definition high_byte :: "char \<Rightarrow> bool" where
  "high_byte c = ((128 :: nat) \<le> of_char c)"

text \<open>
  \<open>strings.ToUpper\<close>. The ASCII letters are mapped as Go maps them, and so are the two
  runes beyond ASCII whose upper case is an ASCII letter: U+017F (long s, bytes C5 BF) becomes
  \<open>S\<close> and U+0131 (dotless i, bytes C4 B1) becomes \<open>I\<close>. Go maps every other rune beyond
  ASCII to a rune beyond ASCII; the model leaves its bytes as they are. The source only compares
  the result with the ASCII literal \<open>ASC\<close>, and for that comparison the model and Go agree.
\<close>

definition upper_byte :: "char \<Rightarrow> char" where
  "upper_byte c =
     (case map_of (zip ''abcdefghijklmnopqrstuvwxyz'' ''ABCDEFGHIJKLMNOPQRSTUVWXYZ'') c of
        None \<Rightarrow> c
      | Some u \<Rightarrow> u)"

fun ToUpper :: "string \<Rightarrow> string" where
  "ToUpper [] = []"
| "ToUpper [c] = [upper_byte c]"
| "ToUpper (c # d # cs) =
     (if c = CHR 0xC5 \<and> d = CHR 0xBF then CHR ''S'' # ToUpper cs
      else if c = CHR 0xC4 \<and> d = CHR 0xB1 then CHR ''I'' # ToUpper cs
      else upper_byte c # ToUpper (d # cs))"

section \<open>The query configuration and the builder\<close>

text \<open>
  \<open>types.QueryConfig\<close> and \<open>Query\<close>. The records are polymorphic in the representation
  of the three slices (\<open>SelectFields\<close>, \<open>JoinClauses\<close> and \<open>args\<close>): this section reads a
  slice as the list of its elements; the section on aliasing reads it as a slice header over a
  store of backing arrays. The embedded \<open>*DB\<close> is the same in every query derived from a
  table and is passed to the operations that execute a query.
\<close>

record 's QueryConfig =
  SelectFields :: 's
  WhereClause :: string
  OrderBy :: string
  Limit :: go_int
  Offset :: go_int
  JoinClauses :: 's
  GroupBy :: string
  Having :: string
  ForUpdate :: bool

record ('s, 'a) Query =
  table :: string
  config :: "'s QueryConfig"
  args :: 'a

type_synonym query = "(string list, val list) Query"

definition clone :: "query \<Rightarrow> query" where
  "clone q = \<lparr>table = table q, config = config q, args = [] @ args q\<rparr>"

definition Query_Select :: "query \<Rightarrow> string list \<Rightarrow> query" where
  "Query_Select q flds = (let newQuery = clone q in
     newQuery\<lparr>config := (config newQuery)\<lparr>SelectFields := flds\<rparr>\<rparr>)"

definition Query_Where :: "query \<Rightarrow> string \<Rightarrow> val list \<Rightarrow> query" where
  "Query_Where q conditions as = (let newQuery = clone q in
     newQuery\<lparr>config := (config newQuery)\<lparr>WhereClause := conditions\<rparr>, args := as\<rparr>)"

definition Query_OrderBy :: "query \<Rightarrow> string \<Rightarrow> query" where
  "Query_OrderBy q flds = (let newQuery = clone q in
     newQuery\<lparr>config := (config newQuery)\<lparr>OrderBy := flds\<rparr>\<rparr>)"

definition Query_Limit :: "query \<Rightarrow> go_int \<Rightarrow> query" where
  "Query_Limit q n = (let newQuery = clone q in
     newQuery\<lparr>config := (config newQuery)\<lparr>Limit := n\<rparr>\<rparr>)"

definition Query_Offset :: "query \<Rightarrow> go_int \<Rightarrow> query" where
  "Query_Offset q n = (let newQuery = clone q in
     newQuery\<lparr>config := (config newQuery)\<lparr>Offset := n\<rparr>\<rparr>)"

definition Query_Join :: "query \<Rightarrow> string \<Rightarrow> query" where
  "Query_Join q joinClause = (let newQuery = clone q in
     newQuery\<lparr>config := (config newQuery)\<lparr>JoinClauses := JoinClauses (config newQuery) @ [joinClause]\<rparr>\<rparr>)"

definition Query_GroupBy :: "query \<Rightarrow> string \<Rightarrow> query" where
  "Query_GroupBy q flds = (let newQuery = clone q in
     newQuery\<lparr>config := (config newQuery)\<lparr>GroupBy := flds\<rparr>\<rparr>)"

definition Query_Having :: "query \<Rightarrow> string \<Rightarrow> query" where
  "Query_Having q conditions = (let newQuery = clone q in
     newQuery\<lparr>config := (config newQuery)\<lparr>Having := conditions\<rparr>\<rparr>)"

definition Query_ForUpdate :: "query \<Rightarrow> query" where
  "Query_ForUpdate q = (let newQuery = clone q in
     newQuery\<lparr>config := (config newQuery)\<lparr>ForUpdate := True\<rparr>\<rparr>)"

text \<open>\<open>Table.Query\<close>: the query a table starts from, with the zero configuration.\<close>

definition Table_Query :: "string \<Rightarrow> query" where
  "Table_Query name =
     \<lparr>table = name,
      config = \<lparr>SelectFields = [], WhereClause = [], OrderBy = [], Limit = 0, Offset = 0,
                JoinClauses = [], GroupBy = [], Having = [], ForUpdate = False\<rparr>,
      args = []\<rparr>"

section \<open>The SQL renderer\<close>

text \<open>
  \<open>Query.buildSelectQuery\<close>: the source writes into a \<open>strings.Builder\<close>; each binding
  of \<open>sb\<close> below is one of its writes, in the source's order.
\<close>

definition buildSelectQuery :: "query \<Rightarrow> string" where
  "buildSelectQuery q =
    (let sb = [];
         sb = sb @ ''SELECT '';
         sb = (if 0 < length (SelectFields (config q))
               then sb @ Join_s (SelectFields (config q)) '', ''
               else sb @ ''*'');
         sb = sb @ ('' FROM '' @ table q);
         sb = foldl (\<lambda>sb join. sb @ ('' '' @ join)) sb (JoinClauses (config q));
         sb = (if WhereClause (config q) \<noteq> [] then sb @ ('' WHERE '' @ WhereClause (config q)) else sb);
         sb = (if GroupBy (config q) \<noteq> [] then sb @ ('' GROUP BY '' @ GroupBy (config q)) else sb);
         sb = (if Having (config q) \<noteq> [] then sb @ ('' HAVING '' @ Having (config q)) else sb);
         sb = (if OrderBy (config q) \<noteq> [] then sb @ ('' ORDER BY '' @ OrderBy (config q)) else sb);
         sb = (if 0 < sint (Limit (config q)) then sb @ ('' LIMIT '' @ fmt_d (Limit (config q))) else sb);
         sb = (if 0 < sint (Offset (config q)) then sb @ ('' OFFSET '' @ fmt_d (Offset (config q))) else sb);
         sb = (if ForUpdate (config q) then sb @ '' FOR UPDATE'' else sb)
     in sb)"

text \<open>
  The renderer as the specification words it: the clauses in the fixed order SELECT list (or
  \<open>*\<close>), FROM, the joins in insertion order, WHERE, GROUP BY, HAVING, ORDER BY, LIMIT, OFFSET
  and the locking clause, each optional clause left out when its content is empty or zero.
\<close>

definition optional_clause :: "string \<Rightarrow> string \<Rightarrow> string" where
  "optional_clause keyword content = (if content = [] then [] else keyword @ content)"

definition positive_clause :: "string \<Rightarrow> go_int \<Rightarrow> string" where
  "positive_clause keyword n = (if 0 < sint n then keyword @ fmt_d n else [])"

definition render_spec :: "query \<Rightarrow> string" where
  "render_spec q =
     concat
      [''SELECT '',
       (if SelectFields (config q) = [] then ''*'' else Join_s (SelectFields (config q)) '', ''),
       '' FROM '', table q,
       concat (map (\<lambda>join. '' '' @ join) (JoinClauses (config q))),
       optional_clause '' WHERE '' (WhereClause (config q)),
       optional_clause '' GROUP BY '' (GroupBy (config q)),
       optional_clause '' HAVING '' (Having (config q)),
       optional_clause '' ORDER BY '' (OrderBy (config q)),
       positive_clause '' LIMIT '' (Limit (config q)),
       positive_clause '' OFFSET '' (Offset (config q)),
       (if ForUpdate (config q) then '' FOR UPDATE'' else [])]"

text \<open>
  The configuration of the clause-ordering example. The join fragment ends in the character
  U+2026 (horizontal ellipsis), three bytes in UTF-8.
\<close>

definition ellipsis :: string where
  "ellipsis = [CHR 0xE2, CHR 0x80, CHR 0xA6]"

definition example_query :: query where
  "example_query =
     \<lparr>table = ''users'',
      config = \<lparr>SelectFields = [''id'', ''name''], WhereClause = ''age > $1'',
                OrderBy = ''name ASC'', Limit = 10, Offset = 20,
                JoinClauses = [''INNER JOIN p ON '' @ ellipsis], GroupBy = ''dept'',
                Having = ''COUNT(*) > 3'', ForUpdate = True\<rparr>,
      args = [VInt 18]\<rparr>"

section \<open>Single-key cursors\<close>

text \<open>\<open>types.Cursor\<close>. A \<open>*types.Cursor\<close> is a \<open>Cursor option\<close>, \<open>None\<close> for nil.\<close>

record Cursor =
  KeyValue :: val
  Forward :: bool
  Limit_c :: go_int

text \<open>The run-time panics the modelled code can raise.\<close>

datatype panic = IndexOutOfRange | UnexportedField

text \<open>
  The block that ends both \<open>WithCursor\<close> and \<open>WithCompositeCursor\<close>: the new predicate
  is combined with an existing WHERE fragment as \<open>(old) AND (new)\<close> and the bind values are
  appended; without a WHERE fragment the predicate becomes the fragment and the bind values
  replace the argument list.
\<close>

definition add_condition :: "query \<Rightarrow> string \<Rightarrow> val list \<Rightarrow> query" where
  "add_condition newQuery whereClause vals =
     (if WhereClause (config newQuery) \<noteq> []
      then newQuery\<lparr>config := (config newQuery)
               \<lparr>WhereClause := ''('' @ WhereClause (config newQuery) @ '') AND ('' @ whereClause @ '')''\<rparr>,
             args := args newQuery @ vals\<rparr>
      else newQuery\<lparr>config := (config newQuery)\<lparr>WhereClause := whereClause\<rparr>, args := vals\<rparr>)"

text \<open>
  \<open>Query.WithCursor\<close>. The source reads \<open>orderParts[1]\<close> after making the list at least
  one element longer when it is shorter than two; a list that was empty is still too short,
  and the read panics.
\<close>

definition WithCursor :: "query \<Rightarrow> string \<Rightarrow> Cursor option \<Rightarrow> panic + query" where
  "WithCursor q keyField cursor =
    (let newQuery = clone q in
     case cursor of
       None \<Rightarrow> Inr newQuery
     | Some c \<Rightarrow>
         if keyField = [] then Inr newQuery
         else
           let newQuery = (if 0 < sint (Limit_c c) then Query_Limit newQuery (Limit_c c + 1)
                           else newQuery)
           in if KeyValue c = VNil then Inr newQuery
              else
                let orderBy = OrderBy (config newQuery);
                    newQuery = (if orderBy = [] then Query_OrderBy newQuery (keyField @ '' ASC'')
                                else newQuery);
                    orderBy = (if orderBy = [] then keyField @ '' ASC'' else orderBy);
                    orderParts = Fields orderBy;
                    orderParts = (if length orderParts < 2 then orderParts @ [''ASC'']
                                  else orderParts)
                in if length orderParts < 2 then Inl IndexOutOfRange
                   else
                     let orderDirection = ToUpper (orderParts ! 1);
                         compareOp =
                           (if Forward c
                            then (if orderDirection = ''ASC'' then ''>'' else ''<'')
                            else (if orderDirection = ''ASC'' then ''<'' else ''>''));
                         whereClause = keyField @ '' '' @ compareOp @ '' ?''
                     in Inr (add_condition newQuery whereClause [KeyValue c]))"

text \<open>
  The operator table of the specification: the comparison operator for a traversal direction
  and a sort direction.
\<close>

definition table_op :: "bool \<Rightarrow> bool \<Rightarrow> string" where
  "table_op forward ascending =
     (if forward then (if ascending then ''>'' else ''<'')
      else (if ascending then ''<'' else ''>''))"

text \<open>
  The direction \<open>WithCursor\<close> works with, read off the source: ascending when the ORDER BY
  fragment has fewer than two white-space separated tokens, or when its second token is
  \<open>ASC\<close> in any letter case; descending for every other second token.
\<close>

definition ascending_by_second_token :: "string \<Rightarrow> bool" where
  "ascending_by_second_token orderBy =
     (length (Fields orderBy) < 2 \<or> ToUpper (Fields orderBy ! 1) = ''ASC'')"

text \<open>
  The direction as the specification words it: the last white-space separated token of the
  ORDER BY fragment, ascending when that token is absent or is not a direction keyword.
\<close>

definition ascending_by_last_token :: "string \<Rightarrow> bool" where
  "ascending_by_last_token orderBy =
     (case rev (Fields orderBy) of
        [] \<Rightarrow> True
      | t # _ \<Rightarrow> ToUpper t \<noteq> ''DESC'')"

section \<open>Composite cursors\<close>

text \<open>
  \<open>types.CompositeCursor\<close>. The Go map \<open>KeyValues\<close> is the list of its entries, with
  distinct keys; \<open>map_of\<close> looks a key up, and the map is empty when the list is.
\<close>

record OrderField =
  Name :: string
  Direction :: string

record CompositeCursor =
  KeyValues :: "(string \<times> val) list"
  OrderFields :: "OrderField list"
  Forward_cc :: bool
  Limit_cc :: go_int

definition WithCompositeCursor :: "query \<Rightarrow> CompositeCursor option \<Rightarrow> query" where
  "WithCompositeCursor q cursor =
    (case cursor of
       None \<Rightarrow> q
     | Some c \<Rightarrow>
         if length (KeyValues c) = 0 \<or> length (OrderFields c) = 0 then q
         else
           let newQuery = \<lparr>table = table q, config = config q, args = [] @ args q\<rparr>;
               newQuery = (if 0 < sint (Limit_cc c)
                           then newQuery\<lparr>config := (config newQuery)\<lparr>Limit := Limit_cc c + 1\<rparr>\<rparr>
                           else newQuery);
               orderParts = foldl (\<lambda>parts f. parts @ [Name f @ '' '' @ Direction f]) []
                              (OrderFields c);
               orderBy = Join_s orderParts '', '';
               newQuery = newQuery\<lparr>config := (config newQuery)\<lparr>OrderBy := orderBy\<rparr>\<rparr>;
               fieldNames = foldl (\<lambda>names f. names @ [Name f]) [] (OrderFields c);
               fieldPlaceholders = foldl (\<lambda>holders f. holders @ [''?'']) [] (OrderFields c);
               fieldValues = foldl (\<lambda>vals f. vals @
                                 [case map_of (KeyValues c) (Name f) of None \<Rightarrow> VNil | Some v \<Rightarrow> v])
                               [] (OrderFields c);
               compareOp = (if Forward_cc c then ''>'' else ''<'');
               whereClause = ''('' @ Join_s fieldNames '', '' @ '') '' @ compareOp @
                             '' ('' @ Join_s fieldPlaceholders '', '' @ '')''
           in add_condition newQuery whereClause fieldValues)"

text \<open>The value bound for a field name: the map's entry, nil when there is none.\<close>

definition key_value_of :: "CompositeCursor \<Rightarrow> string \<Rightarrow> val" where
  "key_value_of c name = (case map_of (KeyValues c) name of None \<Rightarrow> VNil | Some v \<Rightarrow> v)"

text \<open>
  The row-tuple predicate as the specification words it: the field names in the order of
  \<open>orderFields\<close>, one operator for the whole tuple, and one placeholder for each bound value.
\<close>

definition tuple_predicate :: "CompositeCursor \<Rightarrow> string" where
  "tuple_predicate c =
     ''('' @ Join_s (map Name (OrderFields c)) '', '' @ '') '' @
     (if Forward_cc c then ''>'' else ''<'') @
     '' ('' @ Join_s (replicate (length (OrderFields c)) ''?'') '', '' @ '')''"

section \<open>Errors\<close>

text \<open>
  Go errors as values. A sentinel is a package-level error made by \<open>errors.New\<close>;
  \<open>PqError code detail\<close> is a \<open>*pq.Error\<close>; \<open>DriverError\<close> is any other error of
  the database layer. The two remaining constructors are the two shapes of \<open>fmt.Errorf\<close>
  in the source, which wrap the error standing at \<open>%w\<close>.
\<close>

datatype sentinel =
    ErrRecordNotFound | ErrPermissionDenied | ErrQueryTimeout | ErrConstraintViolation
  | ErrForeignKeyViolation | ErrUniqueViolation | ErrCheckViolation
  | types_ErrInvalidStructure | sql_ErrNoRows

datatype error =
    Sentinel sentinel
  | PqError string string
  | DriverError string
  | Errorf_w_s error string
  | Errorf_s_w string error

text \<open>\<open>errors.As\<close> with a \<open>*pq.Error\<close> target, and \<open>errors.Is\<close> with \<open>sql.ErrNoRows\<close>.\<close>

fun as_pq_error :: "error \<Rightarrow> (string \<times> string) option" where
  "as_pq_error (PqError code detail) = Some (code, detail)"
| "as_pq_error (Errorf_w_s e s) = as_pq_error e"
| "as_pq_error (Errorf_s_w s e) = as_pq_error e"
| "as_pq_error (Sentinel x) = None"
| "as_pq_error (DriverError m) = None"

fun is_no_rows :: "error \<Rightarrow> bool" where
  "is_no_rows (Sentinel x) = (x = sql_ErrNoRows)"
| "is_no_rows (Errorf_w_s e s) = is_no_rows e"
| "is_no_rows (Errorf_s_w s e) = is_no_rows e"
| "is_no_rows (PqError code detail) = False"
| "is_no_rows (DriverError m) = False"

text \<open>\<open>DB.wrapError\<close> on an error that is not nil, and on an error that may be nil.\<close>

definition wrap_generic :: "error \<Rightarrow> string \<Rightarrow> error" where
  "wrap_generic err operation =
     (if is_no_rows err then Errorf_w_s (Sentinel ErrRecordNotFound) operation
      else Errorf_s_w operation err)"

definition wrap_present :: "error \<Rightarrow> string \<Rightarrow> error" where
  "wrap_present err operation =
     (case as_pq_error err of
        Some (code, detail) \<Rightarrow>
          if code = ''23505'' then Errorf_w_s (Sentinel ErrUniqueViolation) (operation @ '' - '' @ detail)
          else if code = ''23503'' then Errorf_w_s (Sentinel ErrForeignKeyViolation) (operation @ '' - '' @ detail)
          else if code = ''23514'' then Errorf_w_s (Sentinel ErrCheckViolation) (operation @ '' - '' @ detail)
          else if code = ''23000'' then Errorf_w_s (Sentinel ErrConstraintViolation) (operation @ '' - '' @ detail)
          else if code = ''42501'' then Errorf_w_s (Sentinel ErrPermissionDenied) operation
          else if code = ''57014'' then Errorf_w_s (Sentinel ErrQueryTimeout) operation
          else wrap_generic err operation
      | None \<Rightarrow> wrap_generic err operation)"

definition wrapError :: "error option \<Rightarrow> string \<Rightarrow> error option" where
  "wrapError err operation =
     (case err of None \<Rightarrow> None | Some e \<Rightarrow> Some (wrap_present e operation))"

section \<open>The page assembler\<close>

text \<open>
  What reflection sees of the destination and of its elements. An element of the destination
  slice is a struct with its fields in declaration order, or a value of another kind (a
  pointer, a map, a basic value). The destination itself is a pointer to a slice or anything
  else.
\<close>

record struct_field =
  fname :: string
  exported :: bool
  fvalue :: val

datatype row = Struct "struct_field list" | NotStruct val

datatype dest = SlicePtr "row list" | NotSlicePtr

text \<open>
  The database client, an external collaborator: \<open>SelectContext\<close> answers a statement and
  its arguments with the rows it left in the destination slice and an error that may be nil;
  \<open>GetContext\<close>, used for the count, answers with the scanned number and an error.
\<close>

record DB =
  SelectContext :: "string \<Rightarrow> val list \<Rightarrow> row list \<times> error option"
  GetContext :: "string \<Rightarrow> val list \<Rightarrow> go_int \<times> error option"

record PageResult =
  Data :: "row list"
  TotalCount :: go_int
  NextCursor :: "Cursor option"
  PrevCursor :: "Cursor option"
  HasNext :: bool
  HasPrev :: bool

datatype failure = Panic panic | Error error

definition GetAll :: "DB \<Rightarrow> query \<Rightarrow> row list \<times> error option" where
  "GetAll db q =
     (let query = buildSelectQuery q;
          (rows, err) = SelectContext db query (args q)
      in (rows, wrapError err ''execute get all query''))"

definition Count :: "DB \<Rightarrow> query \<Rightarrow> go_int \<times> error option" where
  "Count db q =
     (let query = ''SELECT COUNT(*) FROM '' @ table q;
          query = (if WhereClause (config q) \<noteq> [] then query @ '' WHERE '' @ WhereClause (config q)
                   else query);
          (count, err) = GetContext db query (args q)
      in (count, wrapError err ''execute count query''))"

text \<open>
  The key value the source takes from a boundary row: the value of the field at index 0 when
  the row is a struct with at least one field, nil otherwise. \<open>Value.Interface\<close> panics on a
  field that is not exported.
\<close>

definition key_of_item :: "row \<Rightarrow> panic + val" where
  "key_of_item item =
     (case item of
        Struct (f # fs) \<Rightarrow> if exported f then Inr (fvalue f) else Inl UnexportedField
      | Struct [] \<Rightarrow> Inr VNil
      | NotStruct v \<Rightarrow> Inr VNil)"

text \<open>
  The three stages of \<open>Query.GetPage\<close> after the data query, in the source's order. The
  first works on the destination slice and returns what it leaves there. \<open>Data\<close> of the
  result is the destination pointer, so it shows the trimmed slice.
\<close>

definition next_stage :: "go_int \<Rightarrow> row list \<Rightarrow> PageResult \<Rightarrow> row list \<times> (panic + PageResult)" where
  "next_stage originalLimit rows result =
     (let resultCount = length rows;
          hasMore = (0 < sint originalLimit \<and> sint originalLimit < int resultCount)
      in if hasMore \<and> 0 < resultCount
         then
           let resultSlice = take (resultCount - 1) rows;
               result = result\<lparr>Data := resultSlice, HasNext := True\<rparr>
           in (resultSlice,
               if resultSlice = [] then Inl IndexOutOfRange
               else
                 case key_of_item (last resultSlice) of
                   Inl p \<Rightarrow> Inl p
                 | Inr keyValue \<Rightarrow>
                     Inr (if keyValue \<noteq> VNil
                          then result\<lparr>NextCursor :=
                                 Some \<lparr>KeyValue = keyValue, Forward = True, Limit_c = originalLimit\<rparr>\<rparr>
                          else result))
         else (rows, Inr result))"

definition prev_stage :: "query \<Rightarrow> go_int \<Rightarrow> nat \<Rightarrow> row list \<Rightarrow> PageResult \<Rightarrow> panic + PageResult" where
  "prev_stage q originalLimit resultCount resultSlice result =
     (if WhereClause (config q) \<noteq> [] \<and> 0 < resultCount
      then
        let result = result\<lparr>HasPrev := True\<rparr>
        in case resultSlice of
             [] \<Rightarrow> Inl IndexOutOfRange
           | firstItem # rest \<Rightarrow>
               (case key_of_item firstItem of
                  Inl p \<Rightarrow> Inl p
                | Inr keyValue \<Rightarrow>
                    Inr (if keyValue \<noteq> VNil
                         then result\<lparr>PrevCursor :=
                                Some \<lparr>KeyValue = keyValue, Forward = False, Limit_c = originalLimit\<rparr>\<rparr>
                         else result))
      else Inr result)"

text \<open>The temporary query the count is issued on.\<close>

definition tempQuery :: "query \<Rightarrow> query" where
  "tempQuery q =
     (let t = \<lparr>table = table q, config = config q, args = [] @ args q\<rparr>
      in t\<lparr>config := (config t)\<lparr>Limit := 0\<rparr>\<rparr>)"

definition count_stage :: "DB \<Rightarrow> query \<Rightarrow> bool \<Rightarrow> PageResult \<Rightarrow> error + PageResult" where
  "count_stage db q withCount result =
     (if withCount
      then
        case Count db (tempQuery q) of
          (totalCount, Some err) \<Rightarrow> Inl (wrap_present err ''count total records'')
        | (totalCount, None) \<Rightarrow> Inr (result\<lparr>TotalCount := totalCount\<rparr>)
      else Inr result)"

text \<open>
  \<open>Query.GetPage\<close>. The result is the destination as the call leaves it, and either the
  failure (a panic or the returned error) or the returned page.
\<close>

definition GetPage :: "DB \<Rightarrow> query \<Rightarrow> dest \<Rightarrow> bool \<Rightarrow> dest \<times> (failure + PageResult)" where
  "GetPage db q dst withCount =
     (case dst of
        NotSlicePtr \<Rightarrow>
          (dst, Inl (Error (Errorf_w_s (Sentinel types_ErrInvalidStructure)
                              ''destination must be a pointer to slice'')))
      | SlicePtr old \<Rightarrow>
          (let originalLimit = Limit (config q)
           in (case GetAll db q of
                 (rows, Some err) \<Rightarrow>
                   (SlicePtr rows, Inl (Error (wrap_present err ''execute page query'')))
               | (rows, None) \<Rightarrow>
                   (let resultCount = length rows;
                        result = \<lparr>Data = rows, TotalCount = 0, NextCursor = None,
                                  PrevCursor = None, HasNext = False, HasPrev = False\<rparr>
                    in (case next_stage originalLimit rows result of
                          (resultSlice, Inl p) \<Rightarrow> (SlicePtr resultSlice, Inl (Panic p))
                        | (resultSlice, Inr result) \<Rightarrow>
                            (case prev_stage q originalLimit resultCount resultSlice result of
                               Inl p \<Rightarrow> (SlicePtr resultSlice, Inl (Panic p))
                             | Inr result \<Rightarrow>
                                 (case count_stage db q withCount result of
                                    Inl e \<Rightarrow> (SlicePtr resultSlice, Inl (Error e))
                                  | Inr result \<Rightarrow> (SlicePtr resultSlice, Inr result))))))))"

text \<open>
  \<open>Query.PageByKeySince\<close> and \<open>Query.PageByKeyBefore\<close>: a cursor is applied and the page
  is fetched from the query it gives.
\<close>

definition PageByKeySince :: "DB \<Rightarrow> query \<Rightarrow> dest \<Rightarrow> string \<Rightarrow> val \<Rightarrow> go_int \<Rightarrow> bool
    \<Rightarrow> dest \<times> (failure + PageResult)" where
  "PageByKeySince db q dst keyField keyValue lim withCount =
     (let cursor = \<lparr>KeyValue = keyValue, Forward = True, Limit_c = lim\<rparr>
      in case WithCursor q keyField (Some cursor) of
           Inl p \<Rightarrow> (dst, Inl (Panic p))
         | Inr q' \<Rightarrow> GetPage db q' dst withCount)"

definition PageByKeyBefore :: "DB \<Rightarrow> query \<Rightarrow> dest \<Rightarrow> string \<Rightarrow> val \<Rightarrow> go_int \<Rightarrow> bool
    \<Rightarrow> dest \<times> (failure + PageResult)" where
  "PageByKeyBefore db q dst keyField keyValue lim withCount =
     (let cursor = \<lparr>KeyValue = keyValue, Forward = False, Limit_c = lim\<rparr>
      in case WithCursor q keyField (Some cursor) of
           Inl p \<Rightarrow> (dst, Inl (Panic p))
         | Inr q' \<Rightarrow> GetPage db q' dst withCount)"

section \<open>Descriptions used by the properties of the page assembler\<close>

text \<open>
  The statement the count is issued with: \<open>COUNT(*)\<close> over the table, with the WHERE
  fragment when there is one, and neither LIMIT nor OFFSET.
\<close>

definition count_sql :: "query \<Rightarrow> string" where
  "count_sql q = ''SELECT COUNT(*) FROM '' @ table q @ optional_clause '' WHERE '' (WhereClause (config q))"

text \<open>
  The cursor a boundary row gives: it carries the value of the row's first field, whatever the
  name of that field, and there is none when the row is no struct, has no field, or has nil in
  its first field.
\<close>

definition cursor_of_first_field :: "row \<Rightarrow> bool \<Rightarrow> go_int \<Rightarrow> Cursor option" where
  "cursor_of_first_field item forward lim =
     (case item of
        Struct (f # fs) \<Rightarrow>
          if fvalue f \<noteq> VNil then Some \<lparr>KeyValue = fvalue f, Forward = forward, Limit_c = lim\<rparr>
          else None
      | Struct [] \<Rightarrow> None
      | NotStruct v \<Rightarrow> None)"

text \<open>
  A boundary row that gives no cursor: no struct with at least one field, or nil in the first
  field.
\<close>

definition no_key_in_first_field :: "row \<Rightarrow> bool" where
  "no_key_in_first_field item =
     (case item of
        Struct (f # fs) \<Rightarrow> fvalue f = VNil
      | Struct [] \<Rightarrow> True
      | NotStruct v \<Rightarrow> True)"


text \<open>Whether the page assembler trims: the executed limit is positive and exceeded.\<close>

definition over_fetched :: "go_int \<Rightarrow> row list \<Rightarrow> bool" where
  "over_fetched lim rows = (0 < sint lim \<and> sint lim < int (length rows))"

text \<open>
  Rows and database clients of the examples. \<open>name_first\<close> is a row of a struct that declares
  \<open>Name\<close> before \<open>ID\<close>; \<open>nil_first\<close> is a row of a struct whose first field is an
  interface holding nil; \<open>unexported_first\<close> is a row of a struct whose first field is not
  exported; \<open>pointer_row\<close> is an element of a slice of pointers to structs, as in the tests
  of the repository. \<open>db_rows\<close> answers every data query with the given rows and every count
  with 42, whatever the statement, as the mock of the repository's tests does;
  \<open>db_count_fails\<close> fails the count. \<open>db_expecting\<close> answers the one data statement it
  expects, with its arguments, and fails every other statement.
\<close>

definition name_first :: "string \<Rightarrow> int \<Rightarrow> row" where
  "name_first n i =
     Struct [\<lparr>fname = ''Name'', exported = True, fvalue = VStr n\<rparr>,
             \<lparr>fname = ''ID'', exported = True, fvalue = VInt i\<rparr>]"

definition nil_first :: "int \<Rightarrow> row" where
  "nil_first i =
     Struct [\<lparr>fname = ''Extra'', exported = True, fvalue = VNil\<rparr>,
             \<lparr>fname = ''ID'', exported = True, fvalue = VInt i\<rparr>]"

definition unexported_first :: "int \<Rightarrow> row" where
  "unexported_first i =
     Struct [\<lparr>fname = ''mu'', exported = False, fvalue = VInt 0\<rparr>,
             \<lparr>fname = ''ID'', exported = True, fvalue = VInt i\<rparr>]"

definition pointer_row :: "int \<Rightarrow> row" where
  "pointer_row i = NotStruct (VInt i)"

definition db_rows :: "row list \<Rightarrow> DB" where
  "db_rows rows = \<lparr>SelectContext = (\<lambda>sql as. (rows, None)), GetContext = (\<lambda>sql as. (42, None))\<rparr>"

definition db_count_fails :: "row list \<Rightarrow> DB" where
  "db_count_fails rows =
     \<lparr>SelectContext = (\<lambda>sql as. (rows, None)),
      GetContext = (\<lambda>sql as. (0, Some (DriverError ''connection reset'')))\<rparr>"

definition db_expecting :: "string \<Rightarrow> val list \<Rightarrow> row list \<Rightarrow> DB" where
  "db_expecting statement bound rows =
     \<lparr>SelectContext = (\<lambda>sql as. if sql = statement \<and> as = bound then (rows, None)
                                 else ([], Some (DriverError ''unexpected statement''))),
      GetContext = (\<lambda>sql as. (0, Some (DriverError ''unexpected statement'')))\<rparr>"

definition rows2 :: "row list" where
  "rows2 = [name_first ''a'' 1, name_first ''b'' 2]"

definition rows3 :: "row list" where
  "rows3 = [name_first ''a'' 1, name_first ''b'' 2, name_first ''c'' 3]"

definition pointer_rows3 :: "row list" where
  "pointer_rows3 = [pointer_row 1, pointer_row 2, pointer_row 3]"

text \<open>The queries of the examples: a filter, and the filter with limit 2 set directly.\<close>

definition adults :: query where
  "adults = Query_Where (Table_Query ''users'') ''age > $1'' [VInt 18]"

definition adults_limit_2 :: query where
  "adults_limit_2 = Query_Limit (Query_Where (Table_Query ''users'') ''age > $1'' [VInt 18]) 2"

text \<open>The composite cursor of the examples: a key value for \<open>id\<close> and none for \<open>name\<close>.\<close>

definition example_composite :: CompositeCursor where
  "example_composite =
     \<lparr>KeyValues = [(''id'', VInt 100)],
      OrderFields = [\<lparr>Name = ''id'', Direction = ''DESC''\<rparr>, \<lparr>Name = ''name'', Direction = ''ASC''\<rparr>],
      Forward_cc = True, Limit_cc = 10\<rparr>"

section \<open>The builder over shared backing arrays\<close>

text \<open>
  A Go slice is a header: the address of a backing array, a length and a capacity. Copying a
  \<open>QueryConfig\<close> copies the headers of \<open>SelectFields\<close> and \<open>JoinClauses\<close>, not the
  arrays. The store holds the backing arrays of strings and of values by address, and the next
  free address; address 0 is the array of the nil slice and of slices without capacity.
\<close>

record slice =
  arr :: nat
  len :: nat
  cap :: nat

record store =
  sarrays :: "nat \<Rightarrow> string list"
  varrays :: "nat \<Rightarrow> val list"
  next_addr :: nat

type_synonym hquery = "(slice, slice) Query"

definition nil_slice :: slice where
  "nil_slice = \<lparr>arr = 0, len = 0, cap = 0\<rparr>"

definition empty_store :: store where
  "empty_store = \<lparr>sarrays = (\<lambda>a. []), varrays = (\<lambda>a. []), next_addr = 1\<rparr>"

text \<open>The elements a slice shows in a store.\<close>

definition strings_of :: "store \<Rightarrow> slice \<Rightarrow> string list" where
  "strings_of st s = take (len s) (sarrays st (arr s))"

definition vals_of :: "store \<Rightarrow> slice \<Rightarrow> val list" where
  "vals_of st s = take (len s) (varrays st (arr s))"

text \<open>
  The capacity Go's runtime gives a slice that has to grow (\<open>growslice\<close>, as in Go 1.22 and
  later). \<open>nextslicecap\<close> proposes a capacity: the new length when that is more than twice the
  old capacity, twice the old capacity below 256 elements, and steps of a quarter plus 192
  above. The bytes of that many elements are then rounded up to what the allocator hands out
  (\<open>roundupsize\<close>), and the capacity is the number of elements that fit.
\<close>

function grow_large :: "nat \<Rightarrow> nat \<Rightarrow> nat" where
  "grow_large newLen newcap =
     (if newLen \<le> newcap + (newcap + 768) div 4 then newcap + (newcap + 768) div 4
      else grow_large newLen (newcap + (newcap + 768) div 4))"
  by pat_completeness auto
termination
  by (relation "measure (\<lambda>(newLen, newcap). newLen - newcap)") auto

declare grow_large.simps [simp del]

definition nextslicecap :: "nat \<Rightarrow> nat \<Rightarrow> nat" where
  "nextslicecap newLen oldCap =
     (if 2 * oldCap < newLen then newLen
      else if oldCap < 256 then 2 * oldCap
      else grow_large newLen oldCap)"

text \<open>
  The size classes of the allocator (\<open>class_to_size\<close>), in bytes. An allocation of at most
  32760 bytes gets the smallest class that holds it; one that holds pointers and is larger than
  512 bytes carries a header of 8 bytes, which is taken off again. A larger allocation is
  rounded up to whole pages of 8192 bytes. Strings and interface values hold pointers and take
  16 bytes each.
\<close>

definition class_to_size :: "nat list" where
  "class_to_size =
     [0, 8, 16, 24, 32, 48, 64, 80, 96, 112, 128, 144, 160, 176, 192, 208, 224, 240, 256, 288, 320,
      352, 384, 416, 448, 480, 512, 576, 640, 704, 768, 896, 1024, 1152, 1280, 1408, 1536, 1792,
      2048, 2304, 2688, 3072, 3200, 3456, 4096, 4864, 5120, 5376, 6144, 6528, 6784, 6912, 8192,
      9472, 9728, 10240, 10880, 12288, 13568, 14336, 16384, 18432, 19072, 20480, 21760, 24576,
      27264, 28672, 32768]"

definition roundupsize :: "nat \<Rightarrow> nat" where
  "roundupsize sz =
     (if sz \<le> 32768 - 8
      then
        let reqSize = (if 512 < sz then sz + 8 else sz)
        in case List.find (\<lambda>c. reqSize \<le> c) class_to_size of
             Some c \<Rightarrow> c - (reqSize - sz)
           | None \<Rightarrow> sz
      else ((sz + 8191) div 8192) * 8192)"

definition growslice_cap :: "nat \<Rightarrow> nat \<Rightarrow> nat" where
  "growslice_cap newLen oldCap = roundupsize (16 * nextslicecap newLen oldCap) div 16"

text \<open>
  \<open>append(s, x)\<close> on a slice of strings: with spare capacity the element is written into
  the backing array the slice shares with every copy of its header; without, a new array is
  allocated and the elements are copied.
\<close>

definition append_string :: "store \<Rightarrow> slice \<Rightarrow> string \<Rightarrow> slice \<times> store" where
  "append_string st s x =
     (if len s < cap s
      then (s\<lparr>len := len s + 1\<rparr>,
            st\<lparr>sarrays := (sarrays st)(arr s := (sarrays st (arr s))[len s := x])\<rparr>)
      else
        let newcap = growslice_cap (len s + 1) (cap s);
            a = next_addr st
        in (\<lparr>arr = a, len = len s + 1, cap = newcap\<rparr>,
            st\<lparr>sarrays := (sarrays st)
                   (a := strings_of st s @ [x] @ replicate (newcap - (len s + 1)) []),
               next_addr := a + 1\<rparr>))"

text \<open>
  \<open>append([]interface{}{}, xs...)\<close>: the copy of the arguments that \<open>clone\<close> makes. Nothing
  is allocated for no elements; otherwise the copy has a backing array of its own.
\<close>

definition copy_vals :: "store \<Rightarrow> slice \<Rightarrow> slice \<times> store" where
  "copy_vals st s =
     (if len s = 0 then (\<lparr>arr = 0, len = 0, cap = 0\<rparr>, st)
      else
        let newcap = growslice_cap (len s) 0;
            a = next_addr st
        in (\<lparr>arr = a, len = len s, cap = newcap\<rparr>,
            st\<lparr>varrays := (varrays st)(a := vals_of st s @ replicate (newcap - len s) VNil),
               next_addr := a + 1\<rparr>))"

text \<open>
  \<open>Query.clone\<close> and the nine mutators, on headers: each takes the store and returns the
  new query with the store it leaves. \<open>Select\<close> and \<open>Where\<close> store the header of the
  slice the caller passed.
\<close>

definition clone_h :: "store \<Rightarrow> hquery \<Rightarrow> hquery \<times> store" where
  "clone_h st q =
     (let (as, st') = copy_vals st (args q)
      in (\<lparr>table = table q, config = config q, args = as\<rparr>, st'))"

definition Select_h :: "store \<Rightarrow> hquery \<Rightarrow> slice \<Rightarrow> hquery \<times> store" where
  "Select_h st q flds =
     (let (newQuery, st') = clone_h st q
      in (newQuery\<lparr>config := (config newQuery)\<lparr>SelectFields := flds\<rparr>\<rparr>, st'))"

definition Where_h :: "store \<Rightarrow> hquery \<Rightarrow> string \<Rightarrow> slice \<Rightarrow> hquery \<times> store" where
  "Where_h st q conditions as =
     (let (newQuery, st') = clone_h st q
      in (newQuery\<lparr>config := (config newQuery)\<lparr>WhereClause := conditions\<rparr>, args := as\<rparr>, st'))"

definition OrderBy_h :: "store \<Rightarrow> hquery \<Rightarrow> string \<Rightarrow> hquery \<times> store" where
  "OrderBy_h st q flds =
     (let (newQuery, st') = clone_h st q
      in (newQuery\<lparr>config := (config newQuery)\<lparr>OrderBy := flds\<rparr>\<rparr>, st'))"

definition Limit_h :: "store \<Rightarrow> hquery \<Rightarrow> go_int \<Rightarrow> hquery \<times> store" where
  "Limit_h st q n =
     (let (newQuery, st') = clone_h st q
      in (newQuery\<lparr>config := (config newQuery)\<lparr>Limit := n\<rparr>\<rparr>, st'))"

definition Offset_h :: "store \<Rightarrow> hquery \<Rightarrow> go_int \<Rightarrow> hquery \<times> store" where
  "Offset_h st q n =
     (let (newQuery, st') = clone_h st q
      in (newQuery\<lparr>config := (config newQuery)\<lparr>Offset := n\<rparr>\<rparr>, st'))"

definition Join_h :: "store \<Rightarrow> hquery \<Rightarrow> string \<Rightarrow> hquery \<times> store" where
  "Join_h st q joinClause =
     (let (newQuery, st') = clone_h st q;
          (joins, st'') = append_string st' (JoinClauses (config newQuery)) joinClause
      in (newQuery\<lparr>config := (config newQuery)\<lparr>JoinClauses := joins\<rparr>\<rparr>, st''))"

definition GroupBy_h :: "store \<Rightarrow> hquery \<Rightarrow> string \<Rightarrow> hquery \<times> store" where
  "GroupBy_h st q flds =
     (let (newQuery, st') = clone_h st q
      in (newQuery\<lparr>config := (config newQuery)\<lparr>GroupBy := flds\<rparr>\<rparr>, st'))"

definition Having_h :: "store \<Rightarrow> hquery \<Rightarrow> string \<Rightarrow> hquery \<times> store" where
  "Having_h st q conditions =
     (let (newQuery, st') = clone_h st q
      in (newQuery\<lparr>config := (config newQuery)\<lparr>Having := conditions\<rparr>\<rparr>, st'))"

definition ForUpdate_h :: "store \<Rightarrow> hquery \<Rightarrow> hquery \<times> store" where
  "ForUpdate_h st q =
     (let (newQuery, st') = clone_h st q
      in (newQuery\<lparr>config := (config newQuery)\<lparr>ForUpdate := True\<rparr>\<rparr>, st'))"

definition Table_Query_h :: "string \<Rightarrow> hquery" where
  "Table_Query_h name =
     \<lparr>table = name,
      config = \<lparr>SelectFields = nil_slice, WhereClause = [], OrderBy = [], Limit = 0, Offset = 0,
                JoinClauses = nil_slice, GroupBy = [], Having = [], ForUpdate = False\<rparr>,
      args = nil_slice\<rparr>"

text \<open>
  What a query over headers shows in a store: the query of the earlier sections, each slice
  read as the list of its elements. \<open>render_h\<close> is the SQL it renders there.
\<close>

definition shown :: "store \<Rightarrow> hquery \<Rightarrow> query" where
  "shown st q =
     \<lparr>table = table q,
      config = \<lparr>SelectFields = strings_of st (SelectFields (config q)),
                WhereClause = WhereClause (config q), OrderBy = OrderBy (config q),
                Limit = Limit (config q), Offset = Offset (config q),
                JoinClauses = strings_of st (JoinClauses (config q)),
                GroupBy = GroupBy (config q), Having = Having (config q),
                ForUpdate = ForUpdate (config q)\<rparr>,
      args = vals_of st (args q)\<rparr>"

definition render_h :: "store \<Rightarrow> hquery \<Rightarrow> string" where
  "render_h st q = buildSelectQuery (shown st q)"

text \<open>
  A query is well formed in a store when its slices lie within allocated arrays, and the array
  of the joins, which only the builder allocates, is not the array of the select fields, which
  the caller passes.
\<close>

definition slice_ok :: "nat \<Rightarrow> nat \<Rightarrow> slice \<Rightarrow> bool" where
  "slice_ok limit_addr array_length s =
     (len s \<le> cap s \<and> cap s \<le> array_length \<and> arr s < limit_addr \<and> (arr s = 0 \<longrightarrow> cap s = 0))"

definition query_ok :: "store \<Rightarrow> hquery \<Rightarrow> bool" where
  "query_ok st q =
     (slice_ok (next_addr st) (length (sarrays st (arr (SelectFields (config q))))) (SelectFields (config q)) \<and>
      slice_ok (next_addr st) (length (sarrays st (arr (JoinClauses (config q))))) (JoinClauses (config q)) \<and>
      slice_ok (next_addr st) (length (varrays st (arr (args q)))) (args q) \<and>
      (arr (SelectFields (config q)) = arr (JoinClauses (config q)) \<longrightarrow> cap (JoinClauses (config q)) = 0))"

text \<open>
  The failing scenario: a base query with three joins, whose backing array has room for a
  fourth, and two queries derived from it by one more join each.
\<close>

definition three_joins :: "hquery \<times> store" where
  "three_joins =
     (let (q1, st1) = Join_h empty_store (Table_Query_h ''users'') ''JOIN a ON a.u = users.id'';
          (q2, st2) = Join_h st1 q1 ''JOIN b ON b.u = users.id''
      in Join_h st2 q2 ''JOIN c ON c.u = users.id'')"

definition first_child :: "hquery \<times> store" where
  "first_child = Join_h (snd three_joins) (fst three_joins) ''JOIN x ON x.u = users.id''"

definition second_child :: "hquery \<times> store" where
  "second_child = Join_h (snd first_child) (fst three_joins) ''JOIN y ON y.u = users.id''"

section \<open>Properties of the renderer\<close>

lemma foldl_append_joins:
  "foldl (\<lambda>sb join. sb @ CHR '' '' # join) acc js = acc @ concat (map ((#) CHR '' '') js)"
  by (induction js arbitrary: acc) simp_all

lemma buildSelectQuery_render_spec: "buildSelectQuery q = render_spec q"
  by (simp add: buildSelectQuery_def render_spec_def Let_def foldl_append_joins
      optional_clause_def positive_clause_def)

lemma fmt_d_10: "fmt_d 10 = ''10''"
  by (simp add: fmt_d_def digits10.simps)

lemma fmt_d_20: "fmt_d 20 = ''20''"
  by (simp add: fmt_d_def digits10.simps)

lemma example_query_renders:
  "buildSelectQuery example_query =
     ''SELECT id, name FROM users INNER JOIN p ON '' @ ellipsis @
     '' WHERE age > $1 GROUP BY dept HAVING COUNT(*) > 3 ORDER BY name ASC LIMIT 10 OFFSET 20 FOR UPDATE''"
  by (simp add: buildSelectQuery_def example_query_def Let_def fmt_d_10 fmt_d_20)

lemma buildSelectQuery_args:
  "table q = table q' \<Longrightarrow> config q = config q' \<Longrightarrow> buildSelectQuery q = buildSelectQuery q'"
  by (simp add: buildSelectQuery_def Let_def)

text \<open>
  Claim C7. The renderer is a function of the table and the configuration alone: queries that
  agree on both render the same text, whatever their arguments. It emits the clauses in the
  fixed order SELECT list (or \<open>*\<close>), FROM, joins in insertion order, WHERE, GROUP BY, HAVING,
  ORDER BY, LIMIT, OFFSET, FOR UPDATE, leaving out each optional clause whose content is empty
  or not positive; and the example configuration renders to exactly the expected bytes.
\<close>

theorem C7_render_fixed_order:
  "buildSelectQuery q = render_spec q \<and>
   (table q = table q' \<and> config q = config q' \<longrightarrow> buildSelectQuery q = buildSelectQuery q') \<and>
   buildSelectQuery example_query =
     ''SELECT id, name FROM users INNER JOIN p ON '' @ ellipsis @
     '' WHERE age > $1 GROUP BY dept HAVING COUNT(*) > 3 ORDER BY name ASC LIMIT 10 OFFSET 20 FOR UPDATE''"
  using buildSelectQuery_render_spec [of q] buildSelectQuery_args [of q q'] example_query_renders
  by blast

theorem C7_render_fixed_order_witness:
  "render_spec (Query_Limit (Query_Where (Table_Query ''users'') ''age > $1'' [VInt 18]) 10) =
     ''SELECT * FROM users WHERE age > $1 LIMIT 10'' \<and>
   buildSelectQuery (Query_Limit (Query_Where (Table_Query ''users'') ''age > $1'' [VInt 21]) 10) =
     ''SELECT * FROM users WHERE age > $1 LIMIT 10''"
proof -
  let ?q = "Query_Limit (Query_Where (Table_Query ''users'') ''age > $1'' [VInt 18]) 10"
  let ?q' = "Query_Limit (Query_Where (Table_Query ''users'') ''age > $1'' [VInt 21]) 10"
  note T = C7_render_fixed_order [of ?q ?q']
  have same: "table ?q = table ?q' \<and> config ?q = config ?q'"
    by (simp add: Query_Limit_def Query_Where_def clone_def)
  have ev: "buildSelectQuery ?q = ''SELECT * FROM users WHERE age > $1 LIMIT 10''"
    by (simp add: buildSelectQuery_def Table_Query_def Query_Limit_def Query_Where_def
        clone_def Let_def fmt_d_10)
  from T have r: "buildSelectQuery ?q = render_spec ?q" by (rule conjunct1)
  from T same have b: "buildSelectQuery ?q = buildSelectQuery ?q'" by blast
  show ?thesis by (simp only: r [symmetric] b [symmetric] ev simp_thms)
qed

section \<open>Properties of single-key cursors\<close>

lemma clone_id: "clone q = q"
  by (simp add: clone_def)

lemma Fields_id_ASC: "Fields ''id ASC'' = [''id'', ''ASC'']"
  by (simp add: Fields_def ascii_space_def)

lemma Fields_id_DESC: "Fields ''id DESC'' = [''id'', ''DESC'']"
  by (simp add: Fields_def ascii_space_def)

lemma ToUpper_ASC: "ToUpper ''ASC'' = ''ASC''"
  by (simp add: upper_byte_def)

lemma ToUpper_DESC: "ToUpper ''DESC'' = ''DESC''"
  by (simp add: upper_byte_def)

lemma sint_succ_no_overflow:
  fixes n :: go_int
  assumes "sint n < 2 ^ 63 - 1"
  shows "sint (n + 1) = sint n + 1"
proof -
  have lo: "- (2 ^ 63) \<le> sint n"
    using sint_ge [of n] by simp
  have "sint (n + 1) = signed_take_bit 63 (sint n + 1)"
    by (simp add: sint_word_ariths)
  also have "\<dots> = sint n + 1"
    using lo assms by (intro signed_take_bit_int_eq_self) simp_all
  finally show ?thesis .
qed

text \<open>
  Claim C1. With ORDER BY \<open>id ASC\<close> (given, or defaulted from an empty fragment) or
  \<open>id DESC\<close>, a cursor on \<open>id\<close> with a key value that is not nil and a positive limit adds
  the predicate \<open>id op ?\<close> whose operator follows the table (forward and ascending \<open>>\<close>,
  backward and ascending \<open><\<close>, forward and descending \<open><\<close>, backward and descending
  \<open>>\<close>), binds the key value as its argument, and sets the limit to the cursor's limit plus
  one. The sum is Go's: it is the integer successor unless the cursor's limit is the largest
  \<open>int\<close>.
\<close>

theorem C1_cursor_direction_table:
  assumes "OrderBy (config q) = [] \<or> OrderBy (config q) = ''id ASC'' \<or> OrderBy (config q) = ''id DESC''"
    and "KeyValue c \<noteq> VNil"
    and "0 < sint (Limit_c c)"
  shows "WithCursor q ''id'' (Some c) =
     Inr \<lparr>table = table q,
          config = (config q)
            \<lparr>WhereClause :=
               (if WhereClause (config q) = []
                then ''id '' @ table_op (Forward c) (OrderBy (config q) \<noteq> ''id DESC'') @ '' ?''
                else ''('' @ WhereClause (config q) @ '') AND ('' @
                     ''id '' @ table_op (Forward c) (OrderBy (config q) \<noteq> ''id DESC'') @ '' ?'' @ '')''),
             OrderBy := (if OrderBy (config q) = [] then ''id ASC'' else OrderBy (config q)),
             Limit := Limit_c c + 1\<rparr>,
          args = (if WhereClause (config q) = [] then [KeyValue c] else args q @ [KeyValue c])\<rparr> \<and>
     table_op True True = ''>'' \<and> table_op False True = ''<'' \<and>
     table_op True False = ''<'' \<and> table_op False False = ''>'' \<and>
     (sint (Limit_c c) < 2 ^ 63 - 1 \<longrightarrow> sint (Limit_c c + 1) = sint (Limit_c c) + 1)"
  using assms(1)
proof (elim disjE)
  assume "OrderBy (config q) = []"
  then show ?thesis using assms(2,3)
    by (simp add: WithCursor_def clone_id Query_Limit_def Query_OrderBy_def Let_def
        Fields_id_ASC upper_byte_def add_condition_def table_op_def sint_succ_no_overflow)
next
  assume "OrderBy (config q) = ''id ASC''"
  then show ?thesis using assms(2,3)
    by (simp add: WithCursor_def clone_id Query_Limit_def Query_OrderBy_def Let_def
        Fields_id_ASC upper_byte_def add_condition_def table_op_def sint_succ_no_overflow)
next
  assume "OrderBy (config q) = ''id DESC''"
  then show ?thesis using assms(2,3)
    by (simp add: WithCursor_def clone_id Query_Limit_def Query_OrderBy_def Let_def
        Fields_id_DESC upper_byte_def add_condition_def table_op_def sint_succ_no_overflow)
qed

theorem C1_cursor_direction_table_witness:
  "WithCursor (Query_OrderBy (Table_Query ''users'') ''id DESC'') ''id''
     (Some \<lparr>KeyValue = VInt 100, Forward = True, Limit_c = 10\<rparr>) =
   Inr \<lparr>table = ''users'',
        config = \<lparr>SelectFields = [], WhereClause = ''id < ?'', OrderBy = ''id DESC'', Limit = 11,
                  Offset = 0, JoinClauses = [], GroupBy = [], Having = [], ForUpdate = False\<rparr>,
        args = [VInt 100]\<rparr>"
  using C1_cursor_direction_table
    [of "Query_OrderBy (Table_Query ''users'') ''id DESC''"
        "\<lparr>KeyValue = VInt 100, Forward = True, Limit_c = 10\<rparr>"]
  by (simp add: Query_OrderBy_def Table_Query_def clone_def table_op_def)

text \<open>
  The defaulted ORDER BY fragment always has a token: its last byte is the letter \<open>C\<close>,
  which is no white space and part of no white-space rune.
\<close>

lemma space_len_high:
  assumes "Suc n < space_len (c # cs)"
  shows "n < length cs \<and> high_byte (cs ! n)"
proof (cases cs)
  case Nil
  with assms show ?thesis by (auto split: if_splits)
next
  case (Cons d ds)
  note cs = this
  show ?thesis
  proof (cases ds)
    case Nil
    with assms cs show ?thesis by (auto simp add: high_byte_def split: if_splits)
  next
    case (Cons e r)
    with assms cs show ?thesis
      by (cases n; cases "n - 1") (auto simp add: high_byte_def split: if_splits)
  qed
qed

lemma space_len_first:
  "0 < space_len (c # cs) \<Longrightarrow> ascii_space c \<or> high_byte c"
  by (cases cs; cases "tl cs") (auto simp add: high_byte_def split: if_splits)

text \<open>Every byte that the mask marks is an ASCII space or a byte beyond ASCII.\<close>

lemma space_mask_marks:
  assumes "\<forall>i < k. i < length s \<longrightarrow> high_byte (s ! i)"
    and "i < length s" and "space_mask k s ! i"
  shows "ascii_space (s ! i) \<or> high_byte (s ! i)"
  using assms
proof (induction k s arbitrary: i rule: space_mask.induct)
  case (1 k)
  then show ?case by simp
next
  case (2 k c cs)
  show ?case
  proof (cases "0 < k")
    case True
    show ?thesis
    proof (cases i)
      case 0
      with True "2.prems"(1) show ?thesis by auto
    next
      case (Suc j)
      have "\<forall>i < k - 1. i < length cs \<longrightarrow> high_byte (cs ! i)"
        using "2.prems"(1) True by (auto simp add: less_diff_conv)
      moreover have "j < length cs" "space_mask (k - 1) cs ! j"
        using "2.prems"(2,3) True Suc by auto
      ultimately have "ascii_space (cs ! j) \<or> high_byte (cs ! j)"
        using "2.IH"(1) [OF True] by blast
      with Suc show ?thesis by simp
    qed
  next
    case False
    note k0 = this
    show ?thesis
    proof (cases "0 < space_len (c # cs)")
      case True
      show ?thesis
      proof (cases i)
        case 0
        with space_len_first [OF True] show ?thesis by simp
      next
        case (Suc j)
        have "\<forall>i < space_len (c # cs) - 1. i < length cs \<longrightarrow> high_byte (cs ! i)"
          using space_len_high [of _ c cs] by (auto simp add: less_diff_conv)
        moreover have "j < length cs" "space_mask (space_len (c # cs) - 1) cs ! j"
          using "2.prems"(2,3) k0 True Suc by auto
        ultimately have "ascii_space (cs ! j) \<or> high_byte (cs ! j)"
          using "2.IH"(2) [OF k0 True] by blast
        with Suc show ?thesis by simp
      qed
    next
      case False
      show ?thesis
      proof (cases i)
        case 0
        with "2.prems"(3) k0 False show ?thesis by simp
      next
        case (Suc j)
        have "j < length cs" "space_mask 0 cs ! j"
          using "2.prems"(2,3) k0 False Suc by auto
        then have "ascii_space (cs ! j) \<or> high_byte (cs ! j)"
          using "2.IH"(3) [OF k0 False] by simp
        with Suc show ?thesis by simp
      qed
    qed
  qed
qed

lemma length_space_mask [simp]: "length (space_mask k s) = length s"
  by (induction k s rule: space_mask.induct) auto

lemma split_fields_nonempty:
  "(c, False) \<in> set xs \<Longrightarrow> split_fields cur xs \<noteq> []"
proof (induction cur xs rule: split_fields.induct)
  case (1 cur)
  then show ?case by simp
next
  case (2 cur c' sp r)
  show ?case
  proof (cases sp)
    case True
    with 2 show ?thesis by (cases "cur = []") auto
  next
    case False
    have ne: "split_fields (cur @ [c']) r \<noteq> []"
    proof (cases "(c, False) \<in> set r")
      case True
      with "2.IH"(3) False show ?thesis by simp
    next
      case False
      have "\<And>cur. cur \<noteq> [] \<Longrightarrow> split_fields cur r \<noteq> []"
      proof (induction r)
        case Nil
        then show ?case by simp
      next
        case (Cons a r)
        then show ?case by (cases a) auto
      qed
      then show ?thesis by simp
    qed
    with False show ?thesis by simp
  qed
qed

lemma Fields_nonempty:
  assumes "i < length s" and "\<not> ascii_space (s ! i)" and "\<not> high_byte (s ! i)"
  shows "Fields s \<noteq> []"
proof -
  have "\<not> space_mask 0 s ! i"
    using space_mask_marks [of 0 s i] assms by auto
  then have "zip s (space_mask 0 s) ! i = (s ! i, False)"
    using assms(1) by simp
  then have "(s ! i, False) \<in> set (zip s (space_mask 0 s))"
    using assms(1) by (metis length_space_mask length_zip min.idem nth_mem)
  then show ?thesis
    unfolding Fields_def by (rule split_fields_nonempty)
qed

lemma Fields_default_order: "Fields (keyField @ '' ASC'') \<noteq> []"
proof -
  let ?s = "keyField @ '' ASC''"
  have i: "length keyField + 3 < length ?s" by simp
  have c: "?s ! (length keyField + 3) = CHR ''C''"
    by (simp add: nth_append)
  show ?thesis
    by (rule Fields_nonempty [OF i]) (simp_all add: c ascii_space_def high_byte_def)
qed

lemma WithCursor_with_key:
  assumes "KeyValue c \<noteq> VNil" and "keyField \<noteq> []"
  shows "WithCursor q keyField (Some c) =
    (let lim = (if 0 < sint (Limit_c c) then Limit_c c + 1 else Limit (config q));
         effective = (if OrderBy (config q) = [] then keyField @ '' ASC'' else OrderBy (config q));
         orderParts = (if length (Fields effective) < 2 then Fields effective @ [''ASC'']
                       else Fields effective)
     in if length orderParts < 2 then Inl IndexOutOfRange
        else Inr (add_condition (q\<lparr>config := (config q)\<lparr>Limit := lim, OrderBy := effective\<rparr>\<rparr>)
                    (keyField @ '' '' @ table_op (Forward c) (ToUpper (orderParts ! 1) = ''ASC'') @ '' ?'')
                    [KeyValue c]))"
  using assms
  by (simp add: WithCursor_def clone_id Query_Limit_def Query_OrderBy_def Let_def table_op_def)

text \<open>
  Claim C4, as the code has it. For a cursor with a key value that is not nil: an empty ORDER BY
  is defaulted to the key field followed by \<open>ASC\<close>; the direction is then read from the
  second white-space separated token of the ORDER BY fragment (the defaulted one included),
  ascending when the fragment has one token only or when the second token is \<open>ASC\<close> in any
  letter case, and descending for every other second token. The theorem covers the empty
  fragment and every fragment with at least one token.
\<close>

theorem C4_direction_from_second_token:
  assumes "KeyValue c \<noteq> VNil" and "keyField \<noteq> []"
    and "effective = (if OrderBy (config q) = [] then keyField @ '' ASC'' else OrderBy (config q))"
    and "OrderBy (config q) = [] \<or> Fields (OrderBy (config q)) \<noteq> []"
  shows "WithCursor q keyField (Some c) =
     Inr \<lparr>table = table q,
          config = (config q)
            \<lparr>WhereClause :=
               (if WhereClause (config q) = []
                then keyField @ '' '' @ table_op (Forward c) (ascending_by_second_token effective) @ '' ?''
                else ''('' @ WhereClause (config q) @ '') AND ('' @
                     keyField @ '' '' @ table_op (Forward c) (ascending_by_second_token effective) @ '' ?'' @ '')''),
             OrderBy := effective,
             Limit := (if 0 < sint (Limit_c c) then Limit_c c + 1 else Limit (config q))\<rparr>,
          args = (if WhereClause (config q) = [] then [KeyValue c] else args q @ [KeyValue c])\<rparr>"
proof -
  have nf: "WithCursor q keyField (Some c) =
      (let orderParts = (if length (Fields effective) < 2 then Fields effective @ [''ASC'']
                         else Fields effective)
       in if length orderParts < 2 then Inl IndexOutOfRange
          else Inr (add_condition
                      (q\<lparr>config := (config q)
                           \<lparr>Limit := (if 0 < sint (Limit_c c) then Limit_c c + 1 else Limit (config q)),
                            OrderBy := effective\<rparr>\<rparr>)
                      (keyField @ '' '' @ table_op (Forward c) (ToUpper (orderParts ! 1) = ''ASC'') @ '' ?'')
                      [KeyValue c]))"
    unfolding WithCursor_with_key [OF assms(1,2)] assms(3) Let_def ..
  have tokens: "Fields effective \<noteq> []"
    using assms(3,4) Fields_default_order [of keyField] by auto
  show ?thesis
  proof (cases "length (Fields effective) < 2")
    case True
    with tokens obtain t where t: "Fields effective = [t]"
      by (cases "Fields effective") simp_all
    show ?thesis
      unfolding nf
      by (simp add: t add_condition_def ascending_by_second_token_def upper_byte_def)
  next
    case False
    then show ?thesis
      unfolding nf
      by (simp add: add_condition_def ascending_by_second_token_def)
  qed
qed



lemma Fields_name_ASC_id_DESC: "Fields ''name ASC, id DESC'' = [''name'', ''ASC,'', ''id'', ''DESC'']"
  by (simp add: Fields_def ascii_space_def)

lemma Fields_name_DESC_id_ASC: "Fields ''name DESC, id ASC'' = [''name'', ''DESC,'', ''id'', ''ASC'']"
  by (simp add: Fields_def ascii_space_def)

lemma Fields_id_ASC_comma: "Fields ''id ASC,'' = [''id'', ''ASC,'']"
  by (simp add: Fields_def ascii_space_def)

lemma Fields_blank: "Fields '' '' = []"
  by (simp add: Fields_def ascii_space_def)

lemma not_ascending_name_ASC_id_DESC: "\<not> ascending_by_second_token ''name ASC, id DESC''"
  by (simp add: ascending_by_second_token_def Fields_name_ASC_id_DESC upper_byte_def)

theorem C4_direction_from_second_token_witness:
  "WithCursor (Query_OrderBy (Table_Query ''users'') ''name ASC, id DESC'') ''id''
     (Some \<lparr>KeyValue = VInt 100, Forward = True, Limit_c = 0\<rparr>) =
   Inr \<lparr>table = ''users'',
        config = \<lparr>SelectFields = [], WhereClause = ''id < ?'', OrderBy = ''name ASC, id DESC'',
                  Limit = 0, Offset = 0, JoinClauses = [], GroupBy = [], Having = [],
                  ForUpdate = False\<rparr>,
        args = [VInt 100]\<rparr>"
proof -
  let ?q = "Query_OrderBy (Table_Query ''users'') ''name ASC, id DESC''"
  let ?c = "\<lparr>KeyValue = VInt 100, Forward = True, Limit_c = 0\<rparr>"
  have h1: "KeyValue ?c \<noteq> VNil" by simp
  have h2: "''id'' \<noteq> []" by simp
  have h3: "''name ASC, id DESC'' =
      (if OrderBy (config ?q) = [] then ''id'' @ '' ASC'' else OrderBy (config ?q))"
    by (simp add: Query_OrderBy_def clone_def)
  have h4: "OrderBy (config ?q) = [] \<or> Fields (OrderBy (config ?q)) \<noteq> []"
    by (simp add: Query_OrderBy_def clone_def Fields_name_ASC_id_DESC)
  show ?thesis
    unfolding C4_direction_from_second_token [OF h1 h2 h3 h4]
    by (simp add: Query_OrderBy_def Table_Query_def clone_def table_op_def
        not_ascending_name_ASC_id_DESC)
qed

text \<open>
  Claim C4 as stated fails. The last token of \<open>name DESC, id ASC\<close> is \<open>ASC\<close>, and the
  last token of \<open>id ASC,\<close> is no direction keyword, so the stated rule takes both as
  ascending, for which a forward cursor compares with \<open>>\<close>; the code compares with \<open><\<close>.
\<close>

theorem C4_last_token_counterexample:
  "ascending_by_last_token ''id ASC,'' \<and>
   WithCursor (Query_OrderBy (Table_Query ''users'') ''id ASC,'') ''id''
     (Some \<lparr>KeyValue = VInt 100, Forward = True, Limit_c = 0\<rparr>) =
   Inr \<lparr>table = ''users'',
        config = \<lparr>SelectFields = [], WhereClause = ''id < ?'', OrderBy = ''id ASC,'',
                  Limit = 0, Offset = 0, JoinClauses = [], GroupBy = [], Having = [],
                  ForUpdate = False\<rparr>,
        args = [VInt 100]\<rparr> \<and>
   ascending_by_last_token ''name DESC, id ASC'' \<and>
   WithCursor (Query_OrderBy (Table_Query ''users'') ''name DESC, id ASC'') ''id''
     (Some \<lparr>KeyValue = VInt 100, Forward = True, Limit_c = 0\<rparr>) =
   Inr \<lparr>table = ''users'',
        config = \<lparr>SelectFields = [], WhereClause = ''id < ?'', OrderBy = ''name DESC, id ASC'',
                  Limit = 0, Offset = 0, JoinClauses = [], GroupBy = [], Having = [],
                  ForUpdate = False\<rparr>,
        args = [VInt 100]\<rparr> \<and>
   table_op True True = ''>''"
proof (intro conjI)
  show "ascending_by_last_token ''id ASC,''"
    by (simp add: ascending_by_last_token_def Fields_id_ASC_comma upper_byte_def)
  show "ascending_by_last_token ''name DESC, id ASC''"
    by (simp add: ascending_by_last_token_def Fields_name_DESC_id_ASC upper_byte_def)
  show "table_op True True = ''>''"
    by (simp add: table_op_def)
  show "WithCursor (Query_OrderBy (Table_Query ''users'') ''id ASC,'') ''id''
     (Some \<lparr>KeyValue = VInt 100, Forward = True, Limit_c = 0\<rparr>) =
   Inr \<lparr>table = ''users'',
        config = \<lparr>SelectFields = [], WhereClause = ''id < ?'', OrderBy = ''id ASC,'',
                  Limit = 0, Offset = 0, JoinClauses = [], GroupBy = [], Having = [],
                  ForUpdate = False\<rparr>,
        args = [VInt 100]\<rparr>"
    by (simp add: WithCursor_def Query_OrderBy_def Table_Query_def clone_def Let_def
        add_condition_def Fields_id_ASC_comma upper_byte_def)
  show "WithCursor (Query_OrderBy (Table_Query ''users'') ''name DESC, id ASC'') ''id''
     (Some \<lparr>KeyValue = VInt 100, Forward = True, Limit_c = 0\<rparr>) =
   Inr \<lparr>table = ''users'',
        config = \<lparr>SelectFields = [], WhereClause = ''id < ?'', OrderBy = ''name DESC, id ASC'',
                  Limit = 0, Offset = 0, JoinClauses = [], GroupBy = [], Having = [],
                  ForUpdate = False\<rparr>,
        args = [VInt 100]\<rparr>"
    by (simp add: WithCursor_def Query_OrderBy_def Table_Query_def clone_def Let_def
        add_condition_def Fields_name_DESC_id_ASC upper_byte_def)
qed

text \<open>
  An ORDER BY fragment that is not empty and has no token, one of white space only, makes the
  read of the second token panic.
\<close>

lemma WithCursor_no_token_panics:
  assumes "KeyValue c \<noteq> VNil" and "keyField \<noteq> []"
    and "OrderBy (config q) \<noteq> []" and "Fields (OrderBy (config q)) = []"
  shows "WithCursor q keyField (Some c) = Inl IndexOutOfRange"
  unfolding WithCursor_with_key [OF assms(1,2)] using assms(3,4) by (simp add: Let_def)

lemma WithCursor_blank_order_panics:
  "WithCursor (Query_OrderBy (Table_Query ''users'') '' '') ''id''
     (Some \<lparr>KeyValue = VInt 100, Forward = True, Limit_c = 0\<rparr>) = Inl IndexOutOfRange"
  by (rule WithCursor_no_token_panics) (simp_all add: Query_OrderBy_def clone_def Fields_blank)

text \<open>
  Claim C6. \<open>WithCursor\<close> with a nil cursor, and with an empty key field, returns a query
  equal to the receiver, so limit, WHERE fragment and arguments are the receiver's; with a
  cursor whose key value is nil, whose limit is 10 and which is forward, it returns the
  receiver with limit 11, the WHERE fragment and the arguments unchanged.
\<close>

theorem C6_cursor_noop_boundaries:
  "WithCursor q ''id'' None = Inr q \<and>
   WithCursor q [] cursor = Inr q \<and>
   (KeyValue c = VNil \<and> Limit_c c = 10 \<and> Forward c \<longrightarrow>
      WithCursor q ''id'' (Some c) = Inr (q\<lparr>config := (config q)\<lparr>Limit := 11\<rparr>\<rparr>) \<and>
      WhereClause (config (q\<lparr>config := (config q)\<lparr>Limit := 11\<rparr>\<rparr>)) = WhereClause (config q) \<and>
      args (q\<lparr>config := (config q)\<lparr>Limit := 11\<rparr>\<rparr>) = args q)"
proof (intro conjI impI)
  show "WithCursor q ''id'' None = Inr q"
    by (simp add: WithCursor_def clone_id)
  show "WithCursor q [] cursor = Inr q"
    by (cases cursor) (simp_all add: WithCursor_def clone_id)
  assume "KeyValue c = VNil \<and> Limit_c c = 10 \<and> Forward c"
  then show "WithCursor q ''id'' (Some c) = Inr (q\<lparr>config := (config q)\<lparr>Limit := 11\<rparr>\<rparr>)"
    by (simp add: WithCursor_def clone_id Query_Limit_def)
qed simp_all

theorem C6_cursor_noop_boundaries_witness:
  "WithCursor (Query_Where (Table_Query ''users'') ''status = $1'' [VStr ''active'']) ''id''
     (Some \<lparr>KeyValue = VNil, Forward = True, Limit_c = 10\<rparr>) =
   Inr \<lparr>table = ''users'',
        config = \<lparr>SelectFields = [], WhereClause = ''status = $1'', OrderBy = [], Limit = 11,
                  Offset = 0, JoinClauses = [], GroupBy = [], Having = [], ForUpdate = False\<rparr>,
        args = [VStr ''active'']\<rparr>"
proof -
  let ?q = "Query_Where (Table_Query ''users'') ''status = $1'' [VStr ''active'']"
  let ?c = "\<lparr>KeyValue = VNil, Forward = True, Limit_c = 10\<rparr>"
  have h: "KeyValue ?c = VNil \<and> Limit_c ?c = 10 \<and> Forward ?c" by simp
  from C6_cursor_noop_boundaries [of ?q None ?c] h
  have "WithCursor ?q ''id'' (Some ?c) = Inr (?q\<lparr>config := (config ?q)\<lparr>Limit := 11\<rparr>\<rparr>)"
    by blast
  then show ?thesis
    by (simp add: Query_Where_def Table_Query_def clone_def)
qed

section \<open>Properties of composite cursors\<close>

lemma foldl_snoc_map: "foldl (\<lambda>acc x. acc @ [g x]) a xs = a @ map g xs"
  by (induction xs arbitrary: a) simp_all

lemma Query_rebuild:
  "\<lparr>table = table q, config = cfg, args = args q\<rparr> = (q\<lparr>config := cfg\<rparr> :: query)"
  by (cases q) simp

lemma WithCompositeCursor_applied:
  assumes "KeyValues c \<noteq> []" and "OrderFields c \<noteq> []"
  shows "WithCompositeCursor q (Some c) =
     add_condition
       (q\<lparr>config := (config q)
            \<lparr>Limit := (if 0 < sint (Limit_cc c) then Limit_cc c + 1 else Limit (config q)),
             OrderBy := Join_s (map (\<lambda>f. Name f @ '' '' @ Direction f) (OrderFields c)) '', ''\<rparr>\<rparr>)
       (tuple_predicate c) (map (\<lambda>f. key_value_of c (Name f)) (OrderFields c))"
  using assms
  by (simp add: WithCompositeCursor_def Let_def foldl_snoc_map [where a = "[]", simplified]
      tuple_predicate_def key_value_of_def map_replicate_const Query_rebuild)

text \<open>
  Claim C5. \<open>WithCompositeCursor\<close> returns the receiver when the cursor is nil, or its
  key-value map is empty, or its list of ordered fields is empty. Otherwise ORDER BY is replaced
  by the pairs of name and direction joined with commas, in list order; the WHERE fragment gains
  the row-tuple predicate, whose field names follow the list order and whose single operator is
  \<open>>\<close> for a forward cursor and \<open><\<close> otherwise, whatever the direction of each field; and
  the bound values are the map's entries for the names in list order, nil for a missing name.
\<close>

theorem C5_composite_cursor:
  "WithCompositeCursor q None = q \<and>
   (KeyValues c = [] \<or> OrderFields c = [] \<longrightarrow> WithCompositeCursor q (Some c) = q) \<and>
   (KeyValues c \<noteq> [] \<and> OrderFields c \<noteq> [] \<longrightarrow>
      WithCompositeCursor q (Some c) =
        \<lparr>table = table q,
         config = (config q)
           \<lparr>WhereClause :=
              (if WhereClause (config q) = [] then tuple_predicate c
               else ''('' @ WhereClause (config q) @ '') AND ('' @ tuple_predicate c @ '')''),
            OrderBy := Join_s (map (\<lambda>f. Name f @ '' '' @ Direction f) (OrderFields c)) '', '',
            Limit := (if 0 < sint (Limit_cc c) then Limit_cc c + 1 else Limit (config q))\<rparr>,
         args = (if WhereClause (config q) = [] then map (\<lambda>f. key_value_of c (Name f)) (OrderFields c)
                 else args q @ map (\<lambda>f. key_value_of c (Name f)) (OrderFields c))\<rparr>)"
proof (intro conjI impI)
  show "WithCompositeCursor q None = q"
    by (simp add: WithCompositeCursor_def)
  assume "KeyValues c = [] \<or> OrderFields c = []"
  then show "WithCompositeCursor q (Some c) = q"
    by (auto simp add: WithCompositeCursor_def)
next
  assume "KeyValues c \<noteq> [] \<and> OrderFields c \<noteq> []"
  then have a: "KeyValues c \<noteq> []" and b: "OrderFields c \<noteq> []" by simp_all
  show "WithCompositeCursor q (Some c) =
        \<lparr>table = table q,
         config = (config q)
           \<lparr>WhereClause :=
              (if WhereClause (config q) = [] then tuple_predicate c
               else ''('' @ WhereClause (config q) @ '') AND ('' @ tuple_predicate c @ '')''),
            OrderBy := Join_s (map (\<lambda>f. Name f @ '' '' @ Direction f) (OrderFields c)) '', '',
            Limit := (if 0 < sint (Limit_cc c) then Limit_cc c + 1 else Limit (config q))\<rparr>,
         args = (if WhereClause (config q) = [] then map (\<lambda>f. key_value_of c (Name f)) (OrderFields c)
                 else args q @ map (\<lambda>f. key_value_of c (Name f)) (OrderFields c))\<rparr>"
    unfolding WithCompositeCursor_applied [OF a b]
    by (simp add: add_condition_def)
qed

theorem C5_composite_cursor_witness:
  "WithCompositeCursor (Query_Where (Table_Query ''users'') ''status = $1'' [VStr ''active''])
     (Some example_composite) =
   \<lparr>table = ''users'',
    config = \<lparr>SelectFields = [], WhereClause = ''(status = $1) AND ((id, name) > (?, ?))'',
              OrderBy = ''id DESC, name ASC'', Limit = 11, Offset = 0, JoinClauses = [],
              GroupBy = [], Having = [], ForUpdate = False\<rparr>,
    args = [VStr ''active'', VInt 100, VNil]\<rparr> \<and>
   WithCompositeCursor (Table_Query ''users'') (Some (example_composite\<lparr>KeyValues := []\<rparr>)) =
     Table_Query ''users''"
proof -
  let ?q = "Query_Where (Table_Query ''users'') ''status = $1'' [VStr ''active'']"
  have h: "KeyValues example_composite \<noteq> [] \<and> OrderFields example_composite \<noteq> []"
    by (simp add: example_composite_def)
  have h': "KeyValues (example_composite\<lparr>KeyValues := []\<rparr>) = [] \<or>
            OrderFields (example_composite\<lparr>KeyValues := []\<rparr>) = []"
    by simp
  have one: "WithCompositeCursor (Table_Query ''users'') (Some (example_composite\<lparr>KeyValues := []\<rparr>)) =
     Table_Query ''users''"
    using C5_composite_cursor [of "Table_Query ''users''" "example_composite\<lparr>KeyValues := []\<rparr>"] h'
    by blast
  have two: "WithCompositeCursor ?q (Some example_composite) =
        \<lparr>table = table ?q,
         config = (config ?q)
           \<lparr>WhereClause :=
              (if WhereClause (config ?q) = [] then tuple_predicate example_composite
               else ''('' @ WhereClause (config ?q) @ '') AND ('' @ tuple_predicate example_composite @ '')''),
            OrderBy := Join_s (map (\<lambda>f. Name f @ '' '' @ Direction f) (OrderFields example_composite)) '', '',
            Limit := (if 0 < sint (Limit_cc example_composite) then Limit_cc example_composite + 1 else Limit (config ?q))\<rparr>,
         args = (if WhereClause (config ?q) = [] then map (\<lambda>f. key_value_of example_composite (Name f)) (OrderFields example_composite)
                 else args ?q @ map (\<lambda>f. key_value_of example_composite (Name f)) (OrderFields example_composite))\<rparr>"
    using C5_composite_cursor [of ?q example_composite] h by blast
  show ?thesis
    unfolding two one
    by (simp add: Query_Where_def Table_Query_def clone_def tuple_predicate_def key_value_of_def
        example_composite_def)
qed

section \<open>Properties of the page assembler\<close>

lemma key_of_item_Inr:
  "key_of_item item = Inr kv \<Longrightarrow>
   (if kv \<noteq> VNil then Some \<lparr>KeyValue = kv, Forward = fw, Limit_c = lim\<rparr> else None) =
   cursor_of_first_field item fw lim"
  by (auto simp add: key_of_item_def cursor_of_first_field_def
      split: row.splits list.splits if_splits)

lemma over_fetched_length: "over_fetched lim rows \<Longrightarrow> 2 \<le> length rows"
  unfolding over_fetched_def by linarith

lemma over_fetched_butlast: "over_fetched lim rows \<Longrightarrow> butlast rows \<noteq> []"
  using over_fetched_length [of lim rows] by (cases rows; cases "tl rows") auto

lemma take_pred_butlast: "take (length rows - Suc 0) rows = butlast rows"
  by (simp add: butlast_conv_take)

lemma next_stage_Inr:
  assumes "next_stage lim rows res = (s, Inr res')"
  shows "s = (if over_fetched lim rows then butlast rows else rows) \<and>
         res' = (if over_fetched lim rows
                 then res\<lparr>Data := butlast rows, HasNext := True,
                          NextCursor := (case cursor_of_first_field (last (butlast rows)) True lim of
                                           None \<Rightarrow> NextCursor res | Some cu \<Rightarrow> Some cu)\<rparr>
                 else res)"
proof (cases "over_fetched lim rows")
  case False
  with assms show ?thesis
    by (auto simp add: next_stage_def over_fetched_def Let_def)
next
  case True
  then have hm: "0 < sint lim \<and> sint lim < int (length rows)" and pos: "rows \<noteq> []"
    and ne: "butlast rows \<noteq> []"
    using over_fetched_length [of lim rows] over_fetched_butlast [of lim rows]
    by (auto simp add: over_fetched_def)
  have ns: "next_stage lim rows res =
      (butlast rows,
       case key_of_item (last (butlast rows)) of
         Inl p \<Rightarrow> Inl p
       | Inr kv \<Rightarrow>
           Inr (if kv \<noteq> VNil
                then res\<lparr>Data := butlast rows, HasNext := True,
                         NextCursor := Some \<lparr>KeyValue = kv, Forward = True, Limit_c = lim\<rparr>\<rparr>
                else res\<lparr>Data := butlast rows, HasNext := True\<rparr>))"
    using hm pos ne by (simp add: next_stage_def Let_def take_pred_butlast)
  show ?thesis
  proof (cases "key_of_item (last (butlast rows))")
    case (Inl p)
    with assms ns show ?thesis by simp
  next
    case (Inr kv)
    with assms ns have s: "s = butlast rows"
      and r: "res' = (if kv \<noteq> VNil
                      then res\<lparr>Data := butlast rows, HasNext := True,
                               NextCursor := Some \<lparr>KeyValue = kv, Forward = True, Limit_c = lim\<rparr>\<rparr>
                      else res\<lparr>Data := butlast rows, HasNext := True\<rparr>)"
      by simp_all
    show ?thesis
    proof (cases "kv = VNil")
      case True
      with key_of_item_Inr [OF Inr, of True lim] have "cursor_of_first_field (last (butlast rows)) True lim = None"
        by simp
      with \<open>over_fetched lim rows\<close> s r True show ?thesis by simp
    next
      case False
      with key_of_item_Inr [OF Inr, of True lim]
      have "cursor_of_first_field (last (butlast rows)) True lim =
            Some \<lparr>KeyValue = kv, Forward = True, Limit_c = lim\<rparr>"
        by simp
      with \<open>over_fetched lim rows\<close> s r False show ?thesis by simp
    qed
  qed
qed

lemma prev_stage_Inr:
  assumes "prev_stage q lim n s res = Inr res'" and "n = 0 \<longleftrightarrow> s = []"
  shows "res' = (if WhereClause (config q) \<noteq> [] \<and> s \<noteq> []
                 then res\<lparr>HasPrev := True,
                          PrevCursor := (case cursor_of_first_field (hd s) False lim of
                                           None \<Rightarrow> PrevCursor res | Some cu \<Rightarrow> Some cu)\<rparr>
                 else res)"
proof (cases "WhereClause (config q) \<noteq> [] \<and> s \<noteq> []")
  case False
  with assms show ?thesis
    by (auto simp add: prev_stage_def)
next
  case True
  then obtain x xs where sx: "s = x # xs" by (cases s) auto
  have ps: "prev_stage q lim n s res =
      (case key_of_item x of
         Inl p \<Rightarrow> Inl p
       | Inr kv \<Rightarrow>
           Inr (if kv \<noteq> VNil
                then res\<lparr>HasPrev := True,
                         PrevCursor := Some \<lparr>KeyValue = kv, Forward = False, Limit_c = lim\<rparr>\<rparr>
                else res\<lparr>HasPrev := True\<rparr>))"
    using True sx assms(2) by (simp add: prev_stage_def Let_def)
  show ?thesis
  proof (cases "key_of_item x")
    case (Inl p)
    with assms(1) ps show ?thesis by simp
  next
    case (Inr kv)
    with assms(1) ps
    have r: "res' = (if kv \<noteq> VNil
                     then res\<lparr>HasPrev := True,
                              PrevCursor := Some \<lparr>KeyValue = kv, Forward = False, Limit_c = lim\<rparr>\<rparr>
                     else res\<lparr>HasPrev := True\<rparr>)"
      by simp
    show ?thesis
    proof (cases "kv = VNil")
      case kvnil: True
      with key_of_item_Inr [OF Inr, of False lim] have "cursor_of_first_field x False lim = None"
        by simp
      with True sx r kvnil show ?thesis by simp
    next
      case kvnn: False
      with key_of_item_Inr [OF Inr, of False lim]
      have "cursor_of_first_field x False lim =
            Some \<lparr>KeyValue = kv, Forward = False, Limit_c = lim\<rparr>"
        by simp
      with True sx r kvnn show ?thesis by simp
    qed
  qed
qed

lemma Count_tempQuery:
  "Count db (tempQuery q) =
     (fst (GetContext db (count_sql q) (args q)),
      wrapError (snd (GetContext db (count_sql q) (args q))) ''execute count query'')"
  by (simp add: Count_def tempQuery_def count_sql_def optional_clause_def Let_def split: prod.splits)

lemma count_stage_Inr:
  assumes "count_stage db q wc res = Inr res'"
  shows "res' = (if wc then res\<lparr>TotalCount := fst (GetContext db (count_sql q) (args q))\<rparr> else res) \<and>
         (wc \<longrightarrow> snd (GetContext db (count_sql q) (args q)) = None)"
  using assms
  by (auto simp add: count_stage_def Count_tempQuery wrapError_def split: if_splits option.splits)


lemma GetAll_ok:
  "SelectContext db (buildSelectQuery q) (args q) = (rows, None) \<Longrightarrow> GetAll db q = (rows, None)"
  by (simp add: GetAll_def wrapError_def)

lemma GetPage_stages:
  assumes "SelectContext db (buildSelectQuery q) (args q) = (rows, None)"
  shows "GetPage db q (SlicePtr old) wc =
    (case next_stage (Limit (config q)) rows
            \<lparr>Data = rows, TotalCount = 0, NextCursor = None, PrevCursor = None,
             HasNext = False, HasPrev = False\<rparr> of
       (resultSlice, Inl p) \<Rightarrow> (SlicePtr resultSlice, Inl (Panic p))
     | (resultSlice, Inr result) \<Rightarrow>
         (case prev_stage q (Limit (config q)) (length rows) resultSlice result of
            Inl p \<Rightarrow> (SlicePtr resultSlice, Inl (Panic p))
          | Inr result \<Rightarrow>
              (case count_stage db q wc result of
                 Inl e \<Rightarrow> (SlicePtr resultSlice, Inl (Error e))
               | Inr result \<Rightarrow> (SlicePtr resultSlice, Inr result))))"
  by (simp add: GetPage_def GetAll_ok [OF assms] Let_def)

lemma GetPage_success:
  assumes sel: "SelectContext db (buildSelectQuery q) (args q) = (rows, None)"
    and res: "GetPage db q (SlicePtr old) wc = (d, Inr r)"
  shows "d = SlicePtr (Data r) \<and>
    r = \<lparr>Data = (if over_fetched (Limit (config q)) rows then butlast rows else rows),
         TotalCount = (if wc then fst (GetContext db (count_sql q) (args q)) else 0),
         NextCursor = (if over_fetched (Limit (config q)) rows
                       then cursor_of_first_field (last (butlast rows)) True (Limit (config q))
                       else None),
         PrevCursor = (if WhereClause (config q) \<noteq> [] \<and> rows \<noteq> []
                       then cursor_of_first_field
                              (hd (if over_fetched (Limit (config q)) rows then butlast rows else rows))
                              False (Limit (config q))
                       else None),
         HasNext = over_fetched (Limit (config q)) rows,
         HasPrev = (WhereClause (config q) \<noteq> [] \<and> rows \<noteq> [])\<rparr>"
proof -
  let ?L = "Limit (config q)"
  let ?r0 = "\<lparr>Data = rows, TotalCount = 0, NextCursor = None, PrevCursor = None,
              HasNext = False, HasPrev = False\<rparr>"
  let ?s = "if over_fetched ?L rows then butlast rows else rows"
  obtain s1 o1 where n1: "next_stage ?L rows ?r0 = (s1, o1)"
    by (cases "next_stage ?L rows ?r0")
  with res GetPage_stages [OF sel, of old wc] obtain r1 where o1: "o1 = Inr r1"
    by (cases o1) auto
  note N = next_stage_Inr [OF n1 [unfolded o1]]
  from res GetPage_stages [OF sel, of old wc] n1 o1
  obtain r2 where p2: "prev_stage q ?L (length rows) s1 r1 = Inr r2"
    by (cases "prev_stage q ?L (length rows) s1 r1") auto
  have empty_iff: "(length rows = 0) = (s1 = [])"
    using N over_fetched_butlast [of ?L rows] by (auto split: if_splits)
  note P = prev_stage_Inr [OF p2 empty_iff]
  from res GetPage_stages [OF sel, of old wc] n1 o1 p2
  obtain r3 where c3: "count_stage db q wc r2 = Inr r3" and fin: "d = SlicePtr s1" "r = r3"
    by (cases "count_stage db q wc r2") auto
  note C = count_stage_Inr [OF c3]
  have s1: "s1 = ?s" using N by simp
  have s1_ne: "(s1 \<noteq> []) = (rows \<noteq> [])" using empty_iff by auto
  show ?thesis
  proof (cases "over_fetched ?L rows")
    case True
    then show ?thesis
      using N P C fin s1 s1_ne
      by (cases "cursor_of_first_field (last (butlast rows)) True ?L";
          cases "cursor_of_first_field (hd (butlast rows)) False ?L";
          cases wc; simp)
  next
    case False
    then show ?thesis
      using N P C fin s1 s1_ne
      by (cases "cursor_of_first_field (hd rows) False ?L"; cases wc; simp)
  qed
qed


lemma GetPage_returns_page:
  assumes sel: "SelectContext db (buildSelectQuery q) (args q) = (rows, None)"
    and nx: "over_fetched (Limit (config q)) rows \<Longrightarrow>
             key_of_item (last (butlast rows)) \<noteq> Inl UnexportedField"
    and pv: "WhereClause (config q) \<noteq> [] \<Longrightarrow> rows \<noteq> [] \<Longrightarrow>
             key_of_item (hd (if over_fetched (Limit (config q)) rows then butlast rows else rows))
               \<noteq> Inl UnexportedField"
    and ct: "wc \<Longrightarrow> snd (GetContext db (count_sql q) (args q)) = None"
  shows "\<exists>d r. GetPage db q (SlicePtr old) wc = (d, Inr r)"
proof -
  let ?L = "Limit (config q)"
  let ?r0 = "\<lparr>Data = rows, TotalCount = 0, NextCursor = None, PrevCursor = None,
              HasNext = False, HasPrev = False\<rparr>"
  have k: "key_of_item item \<noteq> Inl UnexportedField \<Longrightarrow> \<exists>kv. key_of_item item = Inr kv" for item
    by (auto simp add: key_of_item_def split: row.splits list.splits if_splits)
  have "\<exists>s1 r1. next_stage ?L rows ?r0 = (s1, Inr r1) \<and>
          s1 = (if over_fetched ?L rows then butlast rows else rows)"
  proof (cases "over_fetched ?L rows")
    case True
    from k [OF nx [OF True]] obtain kv where "key_of_item (last (butlast rows)) = Inr kv" ..
    with True over_fetched_length [OF True] over_fetched_butlast [OF True] show ?thesis
      by (simp add: next_stage_def Let_def take_pred_butlast over_fetched_def)
  next
    case False
    then show ?thesis
      by (auto simp add: next_stage_def Let_def over_fetched_def)
  qed
  then obtain s1 r1 where n1: "next_stage ?L rows ?r0 = (s1, Inr r1)"
    and s1: "s1 = (if over_fetched ?L rows then butlast rows else rows)" by blast
  have s1_ne: "rows \<noteq> [] \<Longrightarrow> s1 \<noteq> []"
    using s1 over_fetched_butlast [of ?L rows] by (auto split: if_splits)
  have "\<exists>r2. prev_stage q ?L (length rows) s1 r1 = Inr r2"
  proof (cases "WhereClause (config q) \<noteq> [] \<and> rows \<noteq> []")
    case True
    then obtain x xs where sx: "s1 = x # xs" using s1_ne by (cases s1) auto
    have "hd s1 = x" using sx by simp
    with True pv s1 have "key_of_item x \<noteq> Inl UnexportedField" by auto
    from k [OF this] obtain kv where "key_of_item x = Inr kv" ..
    with True sx show ?thesis by (simp add: prev_stage_def Let_def)
  next
    case False
    then show ?thesis by (auto simp add: prev_stage_def)
  qed
  then obtain r2 where p2: "prev_stage q ?L (length rows) s1 r1 = Inr r2" ..
  have "\<exists>r3. count_stage db q wc r2 = Inr r3"
    using ct by (cases wc) (simp_all add: count_stage_def Count_tempQuery wrapError_def)
  then obtain r3 where "count_stage db q wc r2 = Inr r3" ..
  with n1 p2 GetPage_stages [OF sel, of old wc] show ?thesis by simp
qed

text \<open>
  A call that returns a page has had its data query answered without an error.
\<close>

lemma GetPage_page_rows:
  assumes "GetPage db q (SlicePtr old) wc = (d, Inr r)"
  obtains rows where "SelectContext db (buildSelectQuery q) (args q) = (rows, None)"
proof -
  obtain rows eo where s: "SelectContext db (buildSelectQuery q) (args q) = (rows, eo)"
    by (cases "SelectContext db (buildSelectQuery q) (args q)")
  show ?thesis
  proof (cases eo)
    case None
    with s that show ?thesis by simp
  next
    case (Some err)
    with s have "GetAll db q = (rows, Some (wrap_present err ''execute get all query''))"
      by (simp add: GetAll_def wrapError_def)
    then have "snd (GetPage db q (SlicePtr old) wc) =
        Inl (Error (wrap_present (wrap_present err ''execute get all query'') ''execute page query''))"
      by (simp add: GetPage_def Let_def)
    with assms show ?thesis by simp
  qed
qed

text \<open>
  What the page assembler does with the rows in general. The limit it compares with is the
  limit of the configuration it executes. \<open>HasNext\<close> holds exactly when that limit is positive
  and the destination holds more rows than it, and then exactly one row, the last, is removed.
\<close>

lemma GetPage_trims_last_row:
  assumes "SelectContext db (buildSelectQuery q) (args q) = (rows, None)"
    and "GetPage db q (SlicePtr old) withCount = (d, Inr r)"
  shows "HasNext r = (0 < sint (Limit (config q)) \<and> sint (Limit (config q)) < int (length rows)) \<and>
    Data r = (if HasNext r then butlast rows else rows) \<and>
    d = SlicePtr (Data r)"
proof -
  note G = GetPage_success [OF assms]
  have hn: "HasNext r = over_fetched (Limit (config q)) rows"
    by (subst conjunct2 [OF G]) simp
  have dt: "Data r = (if over_fetched (Limit (config q)) rows then butlast rows else rows)"
    by (subst conjunct2 [OF G]) simp
  show ?thesis
    using conjunct1 [OF G] hn dt
    by (auto simp add: over_fetched_def)
qed

text \<open>
  A client that honours the LIMIT clause of the statement never leaves more rows than the
  executed limit. Then no row is removed, and the page has neither \<open>HasNext\<close> nor a next
  cursor, however many rows the table holds.
\<close>

lemma GetPage_limit_honoured:
  assumes sel: "SelectContext db (buildSelectQuery q) (args q) = (rows, None)"
    and hon: "0 < sint (Limit (config q)) \<Longrightarrow> int (length rows) \<le> sint (Limit (config q))"
    and res: "GetPage db q (SlicePtr old) withCount = (d, Inr r)"
  shows "\<not> HasNext r \<and> NextCursor r = None \<and> Data r = rows \<and> d = SlicePtr rows"
proof -
  note G = GetPage_success [OF sel res]
  have no: "\<not> over_fetched (Limit (config q)) rows"
    using hon by (auto simp add: over_fetched_def)
  have "HasNext r = over_fetched (Limit (config q)) rows"
    by (subst conjunct2 [OF G]) simp
  moreover have "NextCursor r =
      (if over_fetched (Limit (config q)) rows
       then cursor_of_first_field (last (butlast rows)) True (Limit (config q)) else None)"
    by (subst conjunct2 [OF G]) simp
  moreover have "Data r = (if over_fetched (Limit (config q)) rows then butlast rows else rows)"
    by (subst conjunct2 [OF G]) simp
  ultimately show ?thesis using no conjunct1 [OF G] by simp
qed

lemma cursor_of_first_field_Some:
  "item = Struct (f # fs) \<Longrightarrow> fvalue f \<noteq> VNil \<Longrightarrow>
   cursor_of_first_field item fw lim = Some \<lparr>KeyValue = fvalue f, Forward = fw, Limit_c = lim\<rparr>"
  by (simp add: cursor_of_first_field_def)

lemma cursor_of_first_field_None:
  "no_key_in_first_field item \<Longrightarrow> cursor_of_first_field item fw lim = None"
  by (auto simp add: cursor_of_first_field_def no_key_in_first_field_def
      split: row.splits list.splits)

text \<open>
  Claim C10. On every page that is returned, the key value of a cursor is the value of the
  field at index 0 of the boundary row, whatever that field is called: a page with \<open>HasNext\<close>
  whose last row is a struct with a value other than nil in its first field has the next cursor
  with that value, forward, and a page with \<open>HasPrev\<close> whose first row is such a struct has
  the previous cursor with that value, backward. The flags can disagree with the cursors: a
  page with \<open>HasNext\<close> whose last row is no struct with at least one field, or has nil in its
  first field, has no next cursor, and likewise a page with \<open>HasPrev\<close> and its first row.
  Without the flag there is no cursor.
\<close>

theorem C10_key_from_field_0:
  assumes "GetPage db q (SlicePtr old) withCount = (d, Inr r)"
  shows "(HasNext r \<and> last (Data r) = Struct (f # fs) \<and> fvalue f \<noteq> VNil \<longrightarrow>
            NextCursor r =
              Some \<lparr>KeyValue = fvalue f, Forward = True, Limit_c = Limit (config q)\<rparr>) \<and>
    (HasNext r \<and> no_key_in_first_field (last (Data r)) \<longrightarrow> NextCursor r = None) \<and>
    (\<not> HasNext r \<longrightarrow> NextCursor r = None) \<and>
    (HasPrev r \<and> hd (Data r) = Struct (g # gs) \<and> fvalue g \<noteq> VNil \<longrightarrow>
            PrevCursor r =
              Some \<lparr>KeyValue = fvalue g, Forward = False, Limit_c = Limit (config q)\<rparr>) \<and>
    (HasPrev r \<and> no_key_in_first_field (hd (Data r)) \<longrightarrow> PrevCursor r = None) \<and>
    (\<not> HasPrev r \<longrightarrow> PrevCursor r = None)"
proof -
  from assms obtain rows where sel: "SelectContext db (buildSelectQuery q) (args q) = (rows, None)"
    by (rule GetPage_page_rows)
  note G = GetPage_success [OF sel assms]
  have nx: "NextCursor r =
      (if HasNext r then cursor_of_first_field (last (Data r)) True (Limit (config q)) else None)"
    by (subst (1 2 3) conjunct2 [OF G]) simp
  have pv: "PrevCursor r =
      (if HasPrev r then cursor_of_first_field (hd (Data r)) False (Limit (config q)) else None)"
    by (subst (1 2 3) conjunct2 [OF G]) simp
  show ?thesis
    using nx pv
      cursor_of_first_field_Some [of "last (Data r)" f fs True "Limit (config q)"]
      cursor_of_first_field_Some [of "hd (Data r)" g gs False "Limit (config q)"]
      cursor_of_first_field_None [of "last (Data r)" True "Limit (config q)"]
      cursor_of_first_field_None [of "hd (Data r)" False "Limit (config q)"]
    by simp
qed


lemma tempQuery_eq: "tempQuery q = q\<lparr>config := (config q)\<lparr>Limit := 0\<rparr>\<rparr>"
  by (simp add: tempQuery_def Let_def Query_rebuild)

lemma Count_reads_no_limit_or_offset:
  "Count db (tempQuery q) = Count db (q\<lparr>config := (config q)\<lparr>Limit := 0, Offset := 0\<rparr>\<rparr>)"
  by (simp add: Count_def tempQuery_def Let_def)

lemma wrap_present_DriverError:
  "wrap_present (DriverError m) operation = Errorf_s_w operation (DriverError m)"
  by (simp add: wrap_present_def wrap_generic_def)

lemma wrap_present_twice_DriverError:
  "wrap_present (Errorf_s_w op1 (DriverError m)) op2 = Errorf_s_w op2 (Errorf_s_w op1 (DriverError m))"
  by (simp add: wrap_present_def wrap_generic_def)

text \<open>
  A call without the count that returns a page has passed the two stages before the count, and
  the same call with the count goes on from there to the count.
\<close>

lemma GetPage_with_count:
  assumes "GetPage db q (SlicePtr old) False = (d, Inr page)"
  shows "GetPage db q (SlicePtr old) True =
     (case count_stage db q True page of
        Inl e \<Rightarrow> (d, Inl (Error e))
      | Inr result \<Rightarrow> (d, Inr result))"
proof -
  from assms obtain rows where sel: "SelectContext db (buildSelectQuery q) (args q) = (rows, None)"
    by (rule GetPage_page_rows)
  let ?L = "Limit (config q)"
  let ?r0 = "\<lparr>Data = rows, TotalCount = 0, NextCursor = None, PrevCursor = None,
              HasNext = False, HasPrev = False\<rparr>"
  obtain s1 o1 where n1: "next_stage ?L rows ?r0 = (s1, o1)"
    by (cases "next_stage ?L rows ?r0")
  with assms GetPage_stages [OF sel, of old False] obtain r1 where o1: "o1 = Inr r1"
    by (cases o1) auto
  from assms GetPage_stages [OF sel, of old False] n1 o1
  obtain r2 where p2: "prev_stage q ?L (length rows) s1 r1 = Inr r2"
    by (cases "prev_stage q ?L (length rows) s1 r1") auto
  from assms GetPage_stages [OF sel, of old False] n1 o1 p2
  have fin: "d = SlicePtr s1" "page = r2"
    by (simp_all add: count_stage_def)
  show ?thesis
    unfolding fin using GetPage_stages [OF sel, of old True] n1 o1 p2 by simp
qed

text \<open>A page returned with the count requested has had its count answered without an error.\<close>

lemma GetPage_page_counted:
  assumes "GetPage db q (SlicePtr old) True = (d, Inr r)"
  shows "snd (GetContext db (count_sql q) (args q)) = None"
proof -
  from assms obtain rows where sel: "SelectContext db (buildSelectQuery q) (args q) = (rows, None)"
    by (rule GetPage_page_rows)
  let ?L = "Limit (config q)"
  let ?r0 = "\<lparr>Data = rows, TotalCount = 0, NextCursor = None, PrevCursor = None,
              HasNext = False, HasPrev = False\<rparr>"
  obtain s1 o1 where n1: "next_stage ?L rows ?r0 = (s1, o1)"
    by (cases "next_stage ?L rows ?r0")
  with assms GetPage_stages [OF sel, of old True] obtain r1 where o1: "o1 = Inr r1"
    by (cases o1) auto
  from assms GetPage_stages [OF sel, of old True] n1 o1
  obtain r2 where p2: "prev_stage q ?L (length rows) s1 r1 = Inr r2"
    by (cases "prev_stage q ?L (length rows) s1 r1") auto
  from assms GetPage_stages [OF sel, of old True] n1 o1 p2
  obtain r3 where c3: "count_stage db q True r2 = Inr r3"
    by (cases "count_stage db q True r2") auto
  from count_stage_Inr [OF c3] show ?thesis by simp
qed

text \<open>
  Claim C9. With the count requested, a call whose count fails returns no page, whatever the
  data query gave. When the data query succeeds and the page is assembled, so that the count is
  issued, a failing count makes the whole call fail with the count's error, wrapped twice, and
  a successful count gives the page with the number the count gave. The count is issued on a
  copy of the query with the same table, WHERE fragment and arguments and with limit 0, and
  what it gives is what the query with limit and offset reset gives: the count statement is
  \<open>COUNT(*)\<close> over the table with the WHERE fragment and renders neither LIMIT nor OFFSET.
\<close>

theorem C9_count_failure_aborts:
  "(snd (GetContext db (count_sql q) (args q)) = Some e \<longrightarrow>
      snd (GetPage db q (SlicePtr old) True) \<noteq> Inr r) \<and>
   (GetPage db q (SlicePtr old) False = (d, Inr page) \<and>
    snd (GetContext db (count_sql q) (args q)) = Some e \<longrightarrow>
      GetPage db q (SlicePtr old) True =
        (d, Inl (Error (wrap_present (wrap_present e ''execute count query'')
                          ''count total records'')))) \<and>
   (GetPage db q (SlicePtr old) False = (d, Inr page) \<and>
    snd (GetContext db (count_sql q) (args q)) = None \<longrightarrow>
      GetPage db q (SlicePtr old) True =
        (d, Inr (page\<lparr>TotalCount := fst (GetContext db (count_sql q) (args q))\<rparr>))) \<and>
   Count db (tempQuery q) =
     (fst (GetContext db (count_sql q) (args q)),
      wrapError (snd (GetContext db (count_sql q) (args q))) ''execute count query'') \<and>
   Count db (tempQuery q) = Count db (q\<lparr>config := (config q)\<lparr>Limit := 0, Offset := 0\<rparr>\<rparr>) \<and>
   table (tempQuery q) = table q \<and>
   WhereClause (config (tempQuery q)) = WhereClause (config q) \<and>
   args (tempQuery q) = args q \<and>
   Limit (config (tempQuery q)) = 0"
proof (intro conjI impI)
  assume e: "snd (GetContext db (count_sql q) (args q)) = Some e"
  show "snd (GetPage db q (SlicePtr old) True) \<noteq> Inr r"
  proof
    assume "snd (GetPage db q (SlicePtr old) True) = Inr r"
    then have "GetPage db q (SlicePtr old) True = (fst (GetPage db q (SlicePtr old) True), Inr r)"
      by (cases "GetPage db q (SlicePtr old) True") simp
    from GetPage_page_counted [OF this] e show False by simp
  qed
next
  assume "GetPage db q (SlicePtr old) False = (d, Inr page) \<and>
          snd (GetContext db (count_sql q) (args q)) = Some e"
  then have pg: "GetPage db q (SlicePtr old) False = (d, Inr page)"
    and e: "snd (GetContext db (count_sql q) (args q)) = Some e"
    by simp_all
  have "count_stage db q True page =
        Inl (wrap_present (wrap_present e ''execute count query'') ''count total records'')"
    by (simp add: count_stage_def Count_tempQuery e wrapError_def)
  with GetPage_with_count [OF pg]
  show "GetPage db q (SlicePtr old) True =
      (d, Inl (Error (wrap_present (wrap_present e ''execute count query'')
                        ''count total records'')))"
    by simp
next
  assume "GetPage db q (SlicePtr old) False = (d, Inr page) \<and>
          snd (GetContext db (count_sql q) (args q)) = None"
  then have pg: "GetPage db q (SlicePtr old) False = (d, Inr page)"
    and n: "snd (GetContext db (count_sql q) (args q)) = None"
    by simp_all
  have "count_stage db q True page =
        Inr (page\<lparr>TotalCount := fst (GetContext db (count_sql q) (args q))\<rparr>)"
    by (simp add: count_stage_def Count_tempQuery n wrapError_def)
  with GetPage_with_count [OF pg]
  show "GetPage db q (SlicePtr old) True =
      (d, Inr (page\<lparr>TotalCount := fst (GetContext db (count_sql q) (args q))\<rparr>))"
    by simp
next
  show "Count db (tempQuery q) =
      (fst (GetContext db (count_sql q) (args q)),
       wrapError (snd (GetContext db (count_sql q) (args q))) ''execute count query'')"
    by (rule Count_tempQuery)
next
  show "Count db (tempQuery q) = Count db (q\<lparr>config := (config q)\<lparr>Limit := 0, Offset := 0\<rparr>\<rparr>)"
    by (rule Count_reads_no_limit_or_offset)
qed (simp_all add: tempQuery_eq)


section \<open>The page assembler on concrete pages\<close>

lemmas page_eval =
  GetPage_def GetAll_def wrapError_def next_stage_def prev_stage_def count_stage_def
  key_of_item_def Let_def db_rows_def db_count_fails_def db_expecting_def name_first_def
  pointer_row_def nil_first_def rows2_def rows3_def pointer_rows3_def

lemma adults_eq:
  "adults =
     \<lparr>table = ''users'',
      config = \<lparr>SelectFields = [], WhereClause = ''age > $1'', OrderBy = [], Limit = 0, Offset = 0,
                JoinClauses = [], GroupBy = [], Having = [], ForUpdate = False\<rparr>,
      args = [VInt 18]\<rparr>"
  by (simp add: adults_def Query_Where_def Table_Query_def clone_def)

lemma adults_limit_2_eq:
  "adults_limit_2 =
     \<lparr>table = ''users'',
      config = \<lparr>SelectFields = [], WhereClause = ''age > $1'', OrderBy = [], Limit = 2, Offset = 0,
                JoinClauses = [], GroupBy = [], Having = [], ForUpdate = False\<rparr>,
      args = [VInt 18]\<rparr>"
  by (simp add: adults_limit_2_def Query_Limit_def Query_Where_def Table_Query_def clone_def)

lemma fmt_d_3: "fmt_d 3 = ''3''"
  by (simp add: fmt_d_def digits10.simps)

lemma fmt_d_4: "fmt_d 4 = ''4''"
  by (simp add: fmt_d_def digits10.simps)

text \<open>
  A first page of size 2 is asked for with a cursor without key value: the limit of the query
  is set to 3, one more than the page size, and nothing else changes.
\<close>

lemma first_page_of_users:
  "WithCursor (Table_Query ''users'') ''id'' (Some \<lparr>KeyValue = VNil, Forward = True, Limit_c = 2\<rparr>) =
     Inr \<lparr>table = ''users'',
          config = \<lparr>SelectFields = [], WhereClause = [], OrderBy = [], Limit = 3, Offset = 0,
                    JoinClauses = [], GroupBy = [], Having = [], ForUpdate = False\<rparr>,
          args = []\<rparr>"
  by (simp add: WithCursor_def Query_Limit_def Table_Query_def clone_def Let_def)

lemma first_page_of_adults:
  "WithCursor adults ''id'' (Some \<lparr>KeyValue = VNil, Forward = True, Limit_c = 2\<rparr>) =
     Inr \<lparr>table = ''users'',
          config = \<lparr>SelectFields = [], WhereClause = ''age > $1'', OrderBy = [], Limit = 3,
                    Offset = 0, JoinClauses = [], GroupBy = [], Having = [], ForUpdate = False\<rparr>,
          args = [VInt 18]\<rparr>"
  by (simp add: WithCursor_def Query_Limit_def adults_eq clone_def Let_def)

text \<open>
  Claim C2 at the failing input. A first page of size 2 is asked for through
  \<open>PageByKeySince\<close>. The statement that is executed asks for 3 rows, one more than the page
  size, and the client answers it with the 3 rows it asks for: there is a further page. The
  call returns all 3 rows and \<open>HasNext = false\<close>: the row count is compared with the limit
  of the executed statement, which already includes the extra row, and not with the page size.
\<close>

theorem C2_page_of_two_keeps_three_rows:
  "PageByKeySince (db_expecting ''SELECT * FROM users LIMIT 3'' [] rows3)
     (Table_Query ''users'') (SlicePtr []) ''id'' VNil 2 False =
     (SlicePtr [name_first ''a'' 1, name_first ''b'' 2, name_first ''c'' 3],
      Inr \<lparr>Data = [name_first ''a'' 1, name_first ''b'' 2, name_first ''c'' 3], TotalCount = 0,
           NextCursor = None, PrevCursor = None, HasNext = False, HasPrev = False\<rparr>)"
  by (simp add: PageByKeySince_def first_page_of_users)
     (simp add: page_eval buildSelectQuery_def fmt_d_3)

text \<open>
  Claim C8 at the failing input. A first page of size 2 of a filtered query is asked for
  through \<open>PageByKeySince\<close> with key field \<open>id\<close>, and the rows are structs that declare
  \<open>Name\<close> before \<open>ID\<close>. The client answers the statement, which asks for 3 rows, with 3
  rows. The previous cursor of the page carries the name of the first row, not the value of its
  key field, and its limit is 3, not the page size 2. Applied with the same key field, that
  cursor gives a query that compares \<open>id\<close> with the name and asks for 4 rows.
\<close>

theorem C8_cursor_of_name_and_limit_3:
  "PageByKeySince (db_expecting ''SELECT * FROM users WHERE age > $1 LIMIT 3'' [VInt 18] rows3)
     adults (SlicePtr []) ''id'' VNil 2 False =
     (SlicePtr [name_first ''a'' 1, name_first ''b'' 2, name_first ''c'' 3],
      Inr \<lparr>Data = [name_first ''a'' 1, name_first ''b'' 2, name_first ''c'' 3], TotalCount = 0,
           NextCursor = None,
           PrevCursor = Some \<lparr>KeyValue = VStr ''a'', Forward = False, Limit_c = 3\<rparr>,
           HasNext = False, HasPrev = True\<rparr>) \<and>
   WithCursor adults ''id'' (Some \<lparr>KeyValue = VStr ''a'', Forward = False, Limit_c = 3\<rparr>) =
     Inr \<lparr>table = ''users'',
          config = \<lparr>SelectFields = [], WhereClause = ''(age > $1) AND (id < ?)'',
                    OrderBy = ''id ASC'', Limit = 4, Offset = 0, JoinClauses = [], GroupBy = [],
                    Having = [], ForUpdate = False\<rparr>,
          args = [VInt 18, VStr ''a'']\<rparr>"
proof
  show "PageByKeySince (db_expecting ''SELECT * FROM users WHERE age > $1 LIMIT 3'' [VInt 18] rows3)
     adults (SlicePtr []) ''id'' VNil 2 False =
     (SlicePtr [name_first ''a'' 1, name_first ''b'' 2, name_first ''c'' 3],
      Inr \<lparr>Data = [name_first ''a'' 1, name_first ''b'' 2, name_first ''c'' 3], TotalCount = 0,
           NextCursor = None,
           PrevCursor = Some \<lparr>KeyValue = VStr ''a'', Forward = False, Limit_c = 3\<rparr>,
           HasNext = False, HasPrev = True\<rparr>)"
    by (simp add: PageByKeySince_def first_page_of_adults)
       (simp add: page_eval buildSelectQuery_def fmt_d_3)
  show "WithCursor adults ''id'' (Some \<lparr>KeyValue = VStr ''a'', Forward = False, Limit_c = 3\<rparr>) =
     Inr \<lparr>table = ''users'',
          config = \<lparr>SelectFields = [], WhereClause = ''(age > $1) AND (id < ?)'',
                    OrderBy = ''id ASC'', Limit = 4, Offset = 0, JoinClauses = [], GroupBy = [],
                    Having = [], ForUpdate = False\<rparr>,
          args = [VInt 18, VStr ''a'']\<rparr>"
    by (simp add: WithCursor_def Query_Limit_def Query_OrderBy_def adults_eq clone_def
        Let_def Fields_id_ASC upper_byte_def add_condition_def)
qed

text \<open>
  Pages of the client that answers with the rows it was given. Limit 2 answered with three
  rows gives a trimmed page; rows of a struct give cursors that carry the names although no
  key field is named \<open>Name\<close>, and elements that are pointers give the flags without cursors.
\<close>

lemma select_db_rows: "SelectContext (db_rows rows) sql as = (rows, None)"
  by (simp add: db_rows_def)

lemma page_of_rows3:
  "GetPage (db_rows rows3) adults_limit_2 (SlicePtr []) False =
     (SlicePtr [name_first ''a'' 1, name_first ''b'' 2],
      Inr \<lparr>Data = [name_first ''a'' 1, name_first ''b'' 2], TotalCount = 0,
           NextCursor = Some \<lparr>KeyValue = VStr ''b'', Forward = True, Limit_c = 2\<rparr>,
           PrevCursor = Some \<lparr>KeyValue = VStr ''a'', Forward = False, Limit_c = 2\<rparr>,
           HasNext = True, HasPrev = True\<rparr>)"
  by (simp add: page_eval adults_limit_2_eq)

lemma page_of_pointer_rows3:
  "GetPage (db_rows pointer_rows3) adults_limit_2 (SlicePtr []) False =
     (SlicePtr [pointer_row 1, pointer_row 2],
      Inr \<lparr>Data = [pointer_row 1, pointer_row 2], TotalCount = 0,
           NextCursor = None, PrevCursor = None, HasNext = True, HasPrev = True\<rparr>)"
  by (simp add: page_eval adults_limit_2_eq)

lemma page_of_nil_first:
  "GetPage (db_rows [nil_first 1, nil_first 2, nil_first 3]) adults_limit_2 (SlicePtr []) False =
     (SlicePtr [nil_first 1, nil_first 2],
      Inr \<lparr>Data = [nil_first 1, nil_first 2], TotalCount = 0,
           NextCursor = None, PrevCursor = None, HasNext = True, HasPrev = True\<rparr>)"
  by (simp add: page_eval adults_limit_2_eq)

text \<open>A boundary row whose first field is not exported makes the call panic.\<close>

lemma page_of_unexported_first_panics:
  "GetPage (db_rows [unexported_first 1]) adults (SlicePtr []) False =
   (SlicePtr [unexported_first 1], Inl (Panic UnexportedField))"
  by (simp add: page_eval unexported_first_def adults_eq)

lemma page_of_rows2:
  "GetPage (db_rows rows2) adults_limit_2 (SlicePtr []) False =
     (SlicePtr [name_first ''a'' 1, name_first ''b'' 2],
      Inr \<lparr>Data = [name_first ''a'' 1, name_first ''b'' 2], TotalCount = 0,
           NextCursor = None,
           PrevCursor = Some \<lparr>KeyValue = VStr ''a'', Forward = False, Limit_c = 2\<rparr>,
           HasNext = False, HasPrev = True\<rparr>)"
  by (simp add: page_eval adults_limit_2_eq)

lemma page_of_rows2_count_fails:
  "GetPage (db_count_fails rows2) adults_limit_2 (SlicePtr []) False =
     (SlicePtr [name_first ''a'' 1, name_first ''b'' 2],
      Inr \<lparr>Data = [name_first ''a'' 1, name_first ''b'' 2], TotalCount = 0,
           NextCursor = None,
           PrevCursor = Some \<lparr>KeyValue = VStr ''a'', Forward = False, Limit_c = 2\<rparr>,
           HasNext = False, HasPrev = True\<rparr>)"
  by (simp add: page_eval adults_limit_2_eq)

lemma adults_count_sql: "count_sql adults_limit_2 = ''SELECT COUNT(*) FROM users WHERE age > $1''"
  by (simp add: count_sql_def optional_clause_def adults_limit_2_eq)

theorem C10_key_from_field_0_witness:
  "HasNext (projr (snd (GetPage (db_rows rows3) adults_limit_2 (SlicePtr []) False))) \<and>
   last (Data (projr (snd (GetPage (db_rows rows3) adults_limit_2 (SlicePtr []) False)))) =
     Struct [\<lparr>fname = ''Name'', exported = True, fvalue = VStr ''b''\<rparr>,
             \<lparr>fname = ''ID'', exported = True, fvalue = VInt 2\<rparr>] \<and>
   NextCursor (projr (snd (GetPage (db_rows rows3) adults_limit_2 (SlicePtr []) False))) =
     Some \<lparr>KeyValue = VStr ''b'', Forward = True, Limit_c = 2\<rparr> \<and>
   HasPrev (projr (snd (GetPage (db_rows rows3) adults_limit_2 (SlicePtr []) False))) \<and>
   hd (Data (projr (snd (GetPage (db_rows rows3) adults_limit_2 (SlicePtr []) False)))) =
     Struct [\<lparr>fname = ''Name'', exported = True, fvalue = VStr ''a''\<rparr>,
             \<lparr>fname = ''ID'', exported = True, fvalue = VInt 1\<rparr>] \<and>
   PrevCursor (projr (snd (GetPage (db_rows rows3) adults_limit_2 (SlicePtr []) False))) =
     Some \<lparr>KeyValue = VStr ''a'', Forward = False, Limit_c = 2\<rparr> \<and>
   HasNext (projr (snd (GetPage (db_rows pointer_rows3) adults_limit_2 (SlicePtr []) False))) \<and>
   no_key_in_first_field
     (last (Data (projr (snd (GetPage (db_rows pointer_rows3) adults_limit_2 (SlicePtr []) False))))) \<and>
   NextCursor (projr (snd (GetPage (db_rows pointer_rows3) adults_limit_2 (SlicePtr []) False))) = None \<and>
   HasPrev (projr (snd (GetPage (db_rows pointer_rows3) adults_limit_2 (SlicePtr []) False))) \<and>
   no_key_in_first_field
     (hd (Data (projr (snd (GetPage (db_rows pointer_rows3) adults_limit_2 (SlicePtr []) False))))) \<and>
   PrevCursor (projr (snd (GetPage (db_rows pointer_rows3) adults_limit_2 (SlicePtr []) False))) = None"
proof -
  let ?s = "projr (snd (GetPage (db_rows rows3) adults_limit_2 (SlicePtr []) False))"
  let ?p = "projr (snd (GetPage (db_rows pointer_rows3) adults_limit_2 (SlicePtr []) False))"
  let ?b = "\<lparr>fname = ''Name'', exported = True, fvalue = VStr ''b''\<rparr>"
  let ?a = "\<lparr>fname = ''Name'', exported = True, fvalue = VStr ''a''\<rparr>"
  let ?i2 = "[\<lparr>fname = ''ID'', exported = True, fvalue = VInt 2\<rparr>]"
  let ?i1 = "[\<lparr>fname = ''ID'', exported = True, fvalue = VInt 1\<rparr>]"
  have cs: "GetPage (db_rows rows3) adults_limit_2 (SlicePtr []) False =
      (SlicePtr [name_first ''a'' 1, name_first ''b'' 2], Inr ?s)"
    by (simp add: page_of_rows3)
  have cp: "GetPage (db_rows pointer_rows3) adults_limit_2 (SlicePtr []) False =
      (SlicePtr [pointer_row 1, pointer_row 2], Inr ?p)"
    by (simp add: page_of_pointer_rows3)
  have hs: "HasNext ?s" "HasPrev ?s" "last (Data ?s) = Struct (?b # ?i2)"
    "hd (Data ?s) = Struct (?a # ?i1)"
    by (simp_all add: page_of_rows3 name_first_def)
  have hp: "HasNext ?p" "HasPrev ?p" "no_key_in_first_field (last (Data ?p))"
    "no_key_in_first_field (hd (Data ?p))"
    by (simp_all add: page_of_pointer_rows3 no_key_in_first_field_def pointer_row_def)
  have l: "Limit (config adults_limit_2) = 2" by (simp add: adults_limit_2_eq)
  note S = C10_key_from_field_0 [OF cs, of ?b ?i2 ?a ?i1]
  note P = C10_key_from_field_0 [OF cp]
  have ns: "NextCursor ?s = Some \<lparr>KeyValue = VStr ''b'', Forward = True, Limit_c = 2\<rparr>"
    using S hs l by simp
  have ps: "PrevCursor ?s = Some \<lparr>KeyValue = VStr ''a'', Forward = False, Limit_c = 2\<rparr>"
    using S hs l by simp
  have np: "NextCursor ?p = None" "PrevCursor ?p = None"
    using P hp by blast+
  show ?thesis
    using hs hp ns ps np by (intro conjI)
qed

theorem C9_count_failure_aborts_witness:
  "snd (GetContext (db_count_fails rows2) (count_sql adults_limit_2) (args adults_limit_2)) =
     Some (DriverError ''connection reset'') \<and>
   GetPage (db_count_fails rows2) adults_limit_2 (SlicePtr []) True =
     (SlicePtr [name_first ''a'' 1, name_first ''b'' 2],
      Inl (Error (Errorf_s_w ''count total records''
                   (Errorf_s_w ''execute count query'' (DriverError ''connection reset''))))) \<and>
   snd (GetContext (db_rows rows2) (count_sql adults_limit_2) (args adults_limit_2)) = None \<and>
   GetPage (db_rows rows2) adults_limit_2 (SlicePtr []) True =
     (SlicePtr [name_first ''a'' 1, name_first ''b'' 2],
      Inr \<lparr>Data = [name_first ''a'' 1, name_first ''b'' 2], TotalCount = 42,
           NextCursor = None,
           PrevCursor = Some \<lparr>KeyValue = VStr ''a'', Forward = False, Limit_c = 2\<rparr>,
           HasNext = False, HasPrev = True\<rparr>)"
proof -
  have e: "snd (GetContext (db_count_fails rows2) (count_sql adults_limit_2) (args adults_limit_2)) =
     Some (DriverError ''connection reset'')"
    by (simp add: db_count_fails_def)
  have n: "snd (GetContext (db_rows rows2) (count_sql adults_limit_2) (args adults_limit_2)) = None"
    and c: "fst (GetContext (db_rows rows2) (count_sql adults_limit_2) (args adults_limit_2)) = 42"
    by (simp_all add: db_rows_def)
  note F = C9_count_failure_aborts [of "db_count_fails rows2" adults_limit_2
      "DriverError ''connection reset''" "[]" _
      "SlicePtr [name_first ''a'' 1, name_first ''b'' 2]"
      "\<lparr>Data = [name_first ''a'' 1, name_first ''b'' 2], TotalCount = 0,
        NextCursor = None,
        PrevCursor = Some \<lparr>KeyValue = VStr ''a'', Forward = False, Limit_c = 2\<rparr>,
        HasNext = False, HasPrev = True\<rparr>"]
  note S = C9_count_failure_aborts [of "db_rows rows2" adults_limit_2
      "DriverError ''connection reset''" "[]" _
      "SlicePtr [name_first ''a'' 1, name_first ''b'' 2]"
      "\<lparr>Data = [name_first ''a'' 1, name_first ''b'' 2], TotalCount = 0,
        NextCursor = None,
        PrevCursor = Some \<lparr>KeyValue = VStr ''a'', Forward = False, Limit_c = 2\<rparr>,
        HasNext = False, HasPrev = True\<rparr>"]
  from F e page_of_rows2_count_fails have "GetPage (db_count_fails rows2) adults_limit_2 (SlicePtr []) True =
     (SlicePtr [name_first ''a'' 1, name_first ''b'' 2],
      Inl (Error (wrap_present (wrap_present (DriverError ''connection reset'') ''execute count query'')
                    ''count total records'')))"
    by blast
  then have fails: "GetPage (db_count_fails rows2) adults_limit_2 (SlicePtr []) True =
     (SlicePtr [name_first ''a'' 1, name_first ''b'' 2],
      Inl (Error (Errorf_s_w ''count total records''
                   (Errorf_s_w ''execute count query'' (DriverError ''connection reset'')))))"
    by (simp add: wrap_present_DriverError wrap_present_twice_DriverError)
  from S n page_of_rows2 have "GetPage (db_rows rows2) adults_limit_2 (SlicePtr []) True =
     (SlicePtr [name_first ''a'' 1, name_first ''b'' 2],
      Inr (\<lparr>Data = [name_first ''a'' 1, name_first ''b'' 2], TotalCount = 0,
           NextCursor = None,
           PrevCursor = Some \<lparr>KeyValue = VStr ''a'', Forward = False, Limit_c = 2\<rparr>,
           HasNext = False, HasPrev = True\<rparr>
           \<lparr>TotalCount := fst (GetContext (db_rows rows2) (count_sql adults_limit_2)
                                 (args adults_limit_2))\<rparr>))"
    by blast
  then have succeeds: "GetPage (db_rows rows2) adults_limit_2 (SlicePtr []) True =
     (SlicePtr [name_first ''a'' 1, name_first ''b'' 2],
      Inr \<lparr>Data = [name_first ''a'' 1, name_first ''b'' 2], TotalCount = 42,
           NextCursor = None,
           PrevCursor = Some \<lparr>KeyValue = VStr ''a'', Forward = False, Limit_c = 2\<rparr>,
           HasNext = False, HasPrev = True\<rparr>)"
    by (simp add: c)
  from e fails n succeeds show ?thesis by (intro conjI)
qed

section \<open>Properties of the builder over shared backing arrays\<close>

text \<open>
  Each mutator, run on headers over a store, gives a query that shows what the mutator of the
  earlier sections gives on the lists, and leaves what the receiver shows unchanged. This holds
  for every well-formed query, and a query built from a table stays well formed.
\<close>

lemma grow_large_ge: "newLen \<le> grow_large newLen newcap"
proof (induction newLen newcap rule: grow_large.induct)
  case (1 newLen newcap)
  then show ?case
    by (subst grow_large.simps) auto
qed

lemma nextslicecap_ge: "newLen \<le> nextslicecap newLen oldCap"
  by (simp add: nextslicecap_def grow_large_ge)

lemma roundupsize_ge: "sz \<le> roundupsize sz"
proof (cases "sz \<le> 32768 - 8")
  case True
  show ?thesis
  proof (cases "List.find (\<lambda>c. (if 512 < sz then sz + 8 else sz) \<le> c) class_to_size")
    case None
    with True show ?thesis by (simp add: roundupsize_def)
  next
    case (Some c)
    then have "(if 512 < sz then sz + 8 else sz) \<le> c"
      by (auto simp add: find_Some_iff)
    with True Some show ?thesis by (auto simp add: roundupsize_def Let_def split: if_splits)
  qed
next
  case False
  have "sz \<le> ((sz + 8191) div 8192) * 8192"
    using div_mult_mod_eq [of "sz + 8191" 8192] mod_less_divisor [of 8192 "sz + 8191"]
    by linarith
  with False show ?thesis by (simp add: roundupsize_def)
qed

lemma growslice_cap_ge: "newLen \<le> growslice_cap newLen oldCap"
proof -
  have "16 * newLen \<le> 16 * nextslicecap newLen oldCap"
    using nextslicecap_ge [of newLen oldCap] by simp
  also have "\<dots> \<le> roundupsize (16 * nextslicecap newLen oldCap)"
    by (rule roundupsize_ge)
  finally have "16 * newLen \<le> roundupsize (16 * nextslicecap newLen oldCap)" .
  then have "newLen \<le> roundupsize (16 * nextslicecap newLen oldCap) div 16"
    by (simp add: less_eq_div_iff_mult_less_eq mult.commute)
  then show ?thesis by (simp add: growslice_cap_def)
qed

text \<open>
  The capacities of the first arrays of strings: 1, 2 and 4, and for the step from 32 to 33
  elements 71, since 64 strings take 1024 bytes and the next class above 1032 bytes is 1152.
\<close>

lemma growslice_cap_small:
  "growslice_cap (Suc 0) 0 = Suc 0"
  "growslice_cap (Suc (Suc 0)) (Suc 0) = Suc (Suc 0)"
  "growslice_cap (Suc (Suc (Suc 0))) (Suc (Suc 0)) = Suc (Suc (Suc (Suc 0)))"
  by (simp_all add: growslice_cap_def nextslicecap_def roundupsize_def class_to_size_def)

lemma growslice_cap_33: "growslice_cap 33 32 = 71"
  by (simp add: growslice_cap_def nextslicecap_def roundupsize_def class_to_size_def)

lemma copy_vals_props:
  assumes "copy_vals st s = (s', st')"
  shows "slice_ok (next_addr st) (length (varrays st (arr s))) s \<Longrightarrow>
         vals_of st' s' = vals_of st s"
    and "sarrays st' = sarrays st"
    and "next_addr st \<le> next_addr st'"
    and "a < next_addr st \<Longrightarrow> varrays st' a = varrays st a"
    and "slice_ok (next_addr st) (length (varrays st (arr s))) s \<Longrightarrow>
         slice_ok (next_addr st') (length (varrays st' (arr s'))) s'"
  using assms
  using growslice_cap_ge [of "len s" 0]
  by (auto simp add: copy_vals_def vals_of_def slice_ok_def Let_def split: if_splits)

lemma slice_ok_mono:
  "slice_ok n k s \<Longrightarrow> n \<le> n' \<Longrightarrow> k \<le> k' \<Longrightarrow> slice_ok n' k' s"
  by (auto simp add: slice_ok_def)

lemma clone_h_props:
  assumes ok: "query_ok st q" and c: "clone_h st q = (q', st')"
  shows "shown st' q' = shown st q" and "shown st' q = shown st q"
    and "query_ok st' q'" and "query_ok st' q"
    and "table q' = table q" and "config q' = config q"
    and "sarrays st' = sarrays st" and "next_addr st \<le> next_addr st'"
proof -
  obtain as where cv: "copy_vals st (args q) = (as, st')"
    and q': "q' = \<lparr>table = table q, config = config q, args = as\<rparr>"
    using c by (auto simp add: clone_h_def split: prod.splits)
  note P = copy_vals_props [OF cv]
  have aok: "slice_ok (next_addr st) (length (varrays st (arr (args q)))) (args q)"
    using ok by (simp add: query_ok_def)
  then have lt: "arr (args q) < next_addr st" by (simp add: slice_ok_def)
  show "table q' = table q" "config q' = config q" using q' by simp_all
  show "sarrays st' = sarrays st" by (rule P(2))
  show "next_addr st \<le> next_addr st'" by (rule P(3))
  show "shown st' q' = shown st q"
    using P(1) [OF aok] P(2) q' by (simp add: shown_def strings_of_def)
  show "shown st' q = shown st q"
    using P(2) P(4) [OF lt] by (simp add: shown_def strings_of_def vals_of_def)
  show "query_ok st' q'"
    using ok P(2) P(3) P(5) [OF aok] q'
    by (auto simp add: query_ok_def elim: slice_ok_mono)
  show "query_ok st' q"
    using ok P(2) P(3) P(4) [OF lt]
    by (auto simp add: query_ok_def elim: slice_ok_mono)
qed


lemma OrderBy_h_props:
  assumes ok: "query_ok st q" and m: "OrderBy_h st q x = (q', st')"
  shows "shown st' q' = Query_OrderBy (shown st q) x" and "shown st' q = shown st q"
    and "query_ok st' q'" and "query_ok st' q"
proof -
  obtain qc where c: "clone_h st q = (qc, st')"
    and q': "q' = qc\<lparr>config := (config qc)\<lparr>OrderBy := x\<rparr>\<rparr>"
    using m by (auto simp add: OrderBy_h_def split: prod.splits)
  note C = clone_h_props [OF ok c]
  show "shown st' q = shown st q" by (rule C(2))
  show "query_ok st' q" by (rule C(4))
  show "query_ok st' q'" using C(3) q' by (simp add: query_ok_def)
  have "shown st' q' = (shown st' qc)\<lparr>config := (config (shown st' qc))\<lparr>OrderBy := x\<rparr>\<rparr>"
    using q' by (simp add: shown_def)
  then show "shown st' q' = Query_OrderBy (shown st q) x"
    using C(1) by (simp add: Query_OrderBy_def clone_id Let_def)
qed

lemma Limit_h_props:
  assumes ok: "query_ok st q" and m: "Limit_h st q n = (q', st')"
  shows "shown st' q' = Query_Limit (shown st q) n" and "shown st' q = shown st q"
    and "query_ok st' q'" and "query_ok st' q"
proof -
  obtain qc where c: "clone_h st q = (qc, st')"
    and q': "q' = qc\<lparr>config := (config qc)\<lparr>Limit := n\<rparr>\<rparr>"
    using m by (auto simp add: Limit_h_def split: prod.splits)
  note C = clone_h_props [OF ok c]
  show "shown st' q = shown st q" by (rule C(2))
  show "query_ok st' q" by (rule C(4))
  show "query_ok st' q'" using C(3) q' by (simp add: query_ok_def)
  have "shown st' q' = (shown st' qc)\<lparr>config := (config (shown st' qc))\<lparr>Limit := n\<rparr>\<rparr>"
    using q' by (simp add: shown_def)
  then show "shown st' q' = Query_Limit (shown st q) n"
    using C(1) by (simp add: Query_Limit_def clone_id Let_def)
qed

lemma Offset_h_props:
  assumes ok: "query_ok st q" and m: "Offset_h st q n = (q', st')"
  shows "shown st' q' = Query_Offset (shown st q) n" and "shown st' q = shown st q"
    and "query_ok st' q'" and "query_ok st' q"
proof -
  obtain qc where c: "clone_h st q = (qc, st')"
    and q': "q' = qc\<lparr>config := (config qc)\<lparr>Offset := n\<rparr>\<rparr>"
    using m by (auto simp add: Offset_h_def split: prod.splits)
  note C = clone_h_props [OF ok c]
  show "shown st' q = shown st q" by (rule C(2))
  show "query_ok st' q" by (rule C(4))
  show "query_ok st' q'" using C(3) q' by (simp add: query_ok_def)
  have "shown st' q' = (shown st' qc)\<lparr>config := (config (shown st' qc))\<lparr>Offset := n\<rparr>\<rparr>"
    using q' by (simp add: shown_def)
  then show "shown st' q' = Query_Offset (shown st q) n"
    using C(1) by (simp add: Query_Offset_def clone_id Let_def)
qed

lemma GroupBy_h_props:
  assumes ok: "query_ok st q" and m: "GroupBy_h st q x = (q', st')"
  shows "shown st' q' = Query_GroupBy (shown st q) x" and "shown st' q = shown st q"
    and "query_ok st' q'" and "query_ok st' q"
proof -
  obtain qc where c: "clone_h st q = (qc, st')"
    and q': "q' = qc\<lparr>config := (config qc)\<lparr>GroupBy := x\<rparr>\<rparr>"
    using m by (auto simp add: GroupBy_h_def split: prod.splits)
  note C = clone_h_props [OF ok c]
  show "shown st' q = shown st q" by (rule C(2))
  show "query_ok st' q" by (rule C(4))
  show "query_ok st' q'" using C(3) q' by (simp add: query_ok_def)
  have "shown st' q' = (shown st' qc)\<lparr>config := (config (shown st' qc))\<lparr>GroupBy := x\<rparr>\<rparr>"
    using q' by (simp add: shown_def)
  then show "shown st' q' = Query_GroupBy (shown st q) x"
    using C(1) by (simp add: Query_GroupBy_def clone_id Let_def)
qed

lemma Having_h_props:
  assumes ok: "query_ok st q" and m: "Having_h st q x = (q', st')"
  shows "shown st' q' = Query_Having (shown st q) x" and "shown st' q = shown st q"
    and "query_ok st' q'" and "query_ok st' q"
proof -
  obtain qc where c: "clone_h st q = (qc, st')"
    and q': "q' = qc\<lparr>config := (config qc)\<lparr>Having := x\<rparr>\<rparr>"
    using m by (auto simp add: Having_h_def split: prod.splits)
  note C = clone_h_props [OF ok c]
  show "shown st' q = shown st q" by (rule C(2))
  show "query_ok st' q" by (rule C(4))
  show "query_ok st' q'" using C(3) q' by (simp add: query_ok_def)
  have "shown st' q' = (shown st' qc)\<lparr>config := (config (shown st' qc))\<lparr>Having := x\<rparr>\<rparr>"
    using q' by (simp add: shown_def)
  then show "shown st' q' = Query_Having (shown st q) x"
    using C(1) by (simp add: Query_Having_def clone_id Let_def)
qed

lemma ForUpdate_h_props:
  assumes ok: "query_ok st q" and m: "ForUpdate_h st q = (q', st')"
  shows "shown st' q' = Query_ForUpdate (shown st q)" and "shown st' q = shown st q"
    and "query_ok st' q'" and "query_ok st' q"
proof -
  obtain qc where c: "clone_h st q = (qc, st')"
    and q': "q' = qc\<lparr>config := (config qc)\<lparr>ForUpdate := True\<rparr>\<rparr>"
    using m by (auto simp add: ForUpdate_h_def split: prod.splits)
  note C = clone_h_props [OF ok c]
  show "shown st' q = shown st q" by (rule C(2))
  show "query_ok st' q" by (rule C(4))
  show "query_ok st' q'" using C(3) q' by (simp add: query_ok_def)
  have "shown st' q' = (shown st' qc)\<lparr>config := (config (shown st' qc))\<lparr>ForUpdate := True\<rparr>\<rparr>"
    using q' by (simp add: shown_def)
  then show "shown st' q' = Query_ForUpdate (shown st q)"
    using C(1) by (simp add: Query_ForUpdate_def clone_id Let_def)
qed


lemma Select_h_props:
  assumes ok: "query_ok st q" and m: "Select_h st q flds = (q', st')"
    and f: "slice_ok (next_addr st) (length (sarrays st (arr flds))) flds"
    and d: "arr flds = arr (JoinClauses (config q)) \<longrightarrow> cap (JoinClauses (config q)) = 0"
  shows "shown st' q' = Query_Select (shown st q) (strings_of st flds)"
    and "shown st' q = shown st q" and "query_ok st' q'" and "query_ok st' q"
proof -
  obtain qc where c: "clone_h st q = (qc, st')"
    and q': "q' = qc\<lparr>config := (config qc)\<lparr>SelectFields := flds\<rparr>\<rparr>"
    using m by (auto simp add: Select_h_def split: prod.splits)
  note C = clone_h_props [OF ok c]
  show "shown st' q = shown st q" by (rule C(2))
  show "query_ok st' q" by (rule C(4))
  show "query_ok st' q'"
    using C(3) C(6) C(7) C(8) q' f d by (auto simp add: query_ok_def elim: slice_ok_mono)
  have "shown st' q' =
      (shown st' qc)\<lparr>config := (config (shown st' qc))\<lparr>SelectFields := strings_of st' flds\<rparr>\<rparr>"
    using q' by (simp add: shown_def)
  moreover have "strings_of st' flds = strings_of st flds"
    using C(7) by (simp add: strings_of_def)
  ultimately show "shown st' q' = Query_Select (shown st q) (strings_of st flds)"
    using C(1) by (simp add: Query_Select_def clone_id Let_def)
qed

lemma Where_h_props:
  assumes ok: "query_ok st q" and m: "Where_h st q conditions as = (q', st')"
    and a: "slice_ok (next_addr st) (length (varrays st (arr as))) as"
  shows "shown st' q' = Query_Where (shown st q) conditions (vals_of st as)"
    and "shown st' q = shown st q" and "query_ok st' q'" and "query_ok st' q"
proof -
  obtain qc where c: "clone_h st q = (qc, st')"
    and q': "q' = qc\<lparr>config := (config qc)\<lparr>WhereClause := conditions\<rparr>, args := as\<rparr>"
    using m by (auto simp add: Where_h_def split: prod.splits)
  obtain cs where cv: "copy_vals st (args q) = (cs, st')"
    using c by (auto simp add: clone_h_def split: prod.splits)
  note C = clone_h_props [OF ok c]
  note P = copy_vals_props [OF cv]
  have lt: "arr as < next_addr st" using a by (simp add: slice_ok_def)
  have same: "varrays st' (arr as) = varrays st (arr as)" by (rule P(4) [OF lt])
  show "shown st' q = shown st q" by (rule C(2))
  show "query_ok st' q" by (rule C(4))
  show "query_ok st' q'"
    using C(3) C(8) q' a same by (auto simp add: query_ok_def elim: slice_ok_mono)
  have "shown st' q' =
      (shown st' qc)\<lparr>config := (config (shown st' qc))\<lparr>WhereClause := conditions\<rparr>,
                      args := vals_of st' as\<rparr>"
    using q' by (simp add: shown_def)
  moreover have "vals_of st' as = vals_of st as"
    using same by (simp add: vals_of_def)
  ultimately show "shown st' q' = Query_Where (shown st q) conditions (vals_of st as)"
    using C(1) by (simp add: Query_Where_def clone_id Let_def)
qed

lemma append_string_props:
  assumes ok: "slice_ok (next_addr st) (length (sarrays st (arr s))) s"
    and ap: "append_string st s x = (s', st')"
  shows "strings_of st' s' = strings_of st s @ [x]"
    and "varrays st' = varrays st" and "next_addr st \<le> next_addr st'"
    and "slice_ok (next_addr st') (length (sarrays st' (arr s'))) s'"
    and "\<And>t. slice_ok (next_addr st) (length (sarrays st (arr t))) t \<Longrightarrow>
           arr t \<noteq> arr s \<or> len t \<le> len s \<or> cap s \<le> len s \<Longrightarrow>
           strings_of st' t = strings_of st t \<and>
           slice_ok (next_addr st') (length (sarrays st' (arr t))) t"
    and "arr s' = arr s \<or> next_addr st \<le> arr s'"
proof -
  show "strings_of st' s' = strings_of st s @ [x]"
    using ok ap
    by (auto simp add: append_string_def strings_of_def slice_ok_def Let_def
        take_Suc_conv_app_nth split: if_splits)
  show "varrays st' = varrays st" and "next_addr st \<le> next_addr st'"
    using ap by (auto simp add: append_string_def Let_def split: if_splits)
  show "slice_ok (next_addr st') (length (sarrays st' (arr s'))) s'"
    using ok ap growslice_cap_ge [of "Suc (cap s)" "cap s"]
    by (auto simp add: append_string_def strings_of_def slice_ok_def Let_def split: if_splits)
  show "arr s' = arr s \<or> next_addr st \<le> arr s'"
    using ap by (auto simp add: append_string_def Let_def split: if_splits)
  fix t
  assume t: "slice_ok (next_addr st) (length (sarrays st (arr t))) t"
    and dis: "arr t \<noteq> arr s \<or> len t \<le> len s \<or> cap s \<le> len s"
  show "strings_of st' t = strings_of st t \<and>
        slice_ok (next_addr st') (length (sarrays st' (arr t))) t"
    using ok ap t dis
    by (auto simp add: append_string_def strings_of_def slice_ok_def Let_def split: if_splits)
qed


lemma Join_h_props:
  assumes ok: "query_ok st q" and m: "Join_h st q x = (q', st')"
  shows "shown st' q' = Query_Join (shown st q) x" and "shown st' q = shown st q"
    and "query_ok st' q'" and "query_ok st' q"
proof -
  obtain qc st1 js where c: "clone_h st q = (qc, st1)"
    and ap: "append_string st1 (JoinClauses (config qc)) x = (js, st')"
    and q': "q' = qc\<lparr>config := (config qc)\<lparr>JoinClauses := js\<rparr>\<rparr>"
    using m by (auto simp add: Join_h_def split: prod.splits)
  note C = clone_h_props [OF ok c]
  let ?jc = "JoinClauses (config q)"
  let ?sf = "SelectFields (config q)"
  have cfg: "config qc = config q" by (rule C(6))
  have jok: "slice_ok (next_addr st1) (length (sarrays st1 (arr ?jc))) ?jc"
    and sok: "slice_ok (next_addr st1) (length (sarrays st1 (arr ?sf))) ?sf"
    and aok: "slice_ok (next_addr st1) (length (varrays st1 (arr (args q)))) (args q)"
    and aok': "slice_ok (next_addr st1) (length (varrays st1 (arr (args qc)))) (args qc)"
    and dis: "arr ?sf = arr ?jc \<longrightarrow> cap ?jc = 0"
    using C(3) C(4) cfg by (simp_all add: query_ok_def)
  note A = append_string_props [OF jok ap [unfolded cfg]]
  have fj: "strings_of st' ?jc = strings_of st1 ?jc \<and>
            slice_ok (next_addr st') (length (sarrays st' (arr ?jc))) ?jc"
    by (rule A(5) [OF jok]) simp
  have fs: "strings_of st' ?sf = strings_of st1 ?sf \<and>
            slice_ok (next_addr st') (length (sarrays st' (arr ?sf))) ?sf"
    using dis jok by (intro A(5) [OF sok]) (auto simp add: slice_ok_def)
  have "shown st' q = shown st1 q"
    using fj fs A(2) by (simp add: shown_def vals_of_def)
  then show "shown st' q = shown st q" using C(2) by simp
  show "query_ok st' q"
    using fj fs A(2) A(3) aok dis by (auto simp add: query_ok_def elim: slice_ok_mono)
  have fresh: "arr js = arr ?jc \<and> len ?jc < cap ?jc \<or> next_addr st1 \<le> arr js"
    using ap [unfolded cfg] by (auto simp add: append_string_def Let_def split: if_splits)
  have "arr ?sf = arr js \<longrightarrow> cap js = 0"
    using fresh dis sok by (auto simp add: slice_ok_def)
  then show "query_ok st' q'"
    using fs A(2) A(3) A(4) aok' q' cfg
    by (auto simp add: query_ok_def elim: slice_ok_mono)
  have "shown st' q' =
      (shown st1 qc)\<lparr>config := (config (shown st1 qc))
                        \<lparr>JoinClauses := JoinClauses (config (shown st1 qc)) @ [x]\<rparr>\<rparr>"
    using q' cfg A(1) A(2) fs by (simp add: shown_def vals_of_def)
  then show "shown st' q' = Query_Join (shown st q) x"
    using C(1) by (simp add: Query_Join_def clone_id Let_def)
qed


lemma Table_Query_h_ok: "query_ok empty_store (Table_Query_h name)"
  by (simp add: query_ok_def slice_ok_def Table_Query_h_def nil_slice_def empty_store_def)

lemma Table_Query_h_shown: "shown empty_store (Table_Query_h name) = Table_Query name"
  by (simp add: shown_def Table_Query_h_def Table_Query_def nil_slice_def empty_store_def
      strings_of_def vals_of_def)

lemmas heap_eval =
  Join_h_def clone_h_def copy_vals_def append_string_def growslice_cap_small strings_of_def
  vals_of_def Table_Query_h_def nil_slice_def empty_store_def Let_def

lemma three_joins_eval:
  "three_joins =
     (\<lparr>table = ''users'',
       config = \<lparr>SelectFields = \<lparr>arr = 0, len = 0, cap = 0\<rparr>, WhereClause = [], OrderBy = [],
                 Limit = 0, Offset = 0, JoinClauses = \<lparr>arr = 3, len = 3, cap = 4\<rparr>,
                 GroupBy = [], Having = [], ForUpdate = False\<rparr>,
       args = \<lparr>arr = 0, len = 0, cap = 0\<rparr>\<rparr>,
      \<lparr>sarrays = (\<lambda>a. [])
         (1 := [''JOIN a ON a.u = users.id''],
          2 := [''JOIN a ON a.u = users.id'', ''JOIN b ON b.u = users.id''],
          3 := [''JOIN a ON a.u = users.id'', ''JOIN b ON b.u = users.id'',
                ''JOIN c ON c.u = users.id'', []]),
       varrays = (\<lambda>a. []), next_addr = 4\<rparr>)"
  by (simp add: three_joins_def heap_eval eval_nat_numeral)


lemma first_child_eval:
  "first_child =
     (\<lparr>table = ''users'',
       config = \<lparr>SelectFields = \<lparr>arr = 0, len = 0, cap = 0\<rparr>, WhereClause = [], OrderBy = [],
                 Limit = 0, Offset = 0, JoinClauses = \<lparr>arr = 3, len = 4, cap = 4\<rparr>,
                 GroupBy = [], Having = [], ForUpdate = False\<rparr>,
       args = \<lparr>arr = 0, len = 0, cap = 0\<rparr>\<rparr>,
      \<lparr>sarrays = (\<lambda>a. [])
         (1 := [''JOIN a ON a.u = users.id''],
          2 := [''JOIN a ON a.u = users.id'', ''JOIN b ON b.u = users.id''],
          3 := [''JOIN a ON a.u = users.id'', ''JOIN b ON b.u = users.id'',
                ''JOIN c ON c.u = users.id'', ''JOIN x ON x.u = users.id'']),
       varrays = (\<lambda>a. []), next_addr = 4\<rparr>)"
  by (simp add: first_child_def three_joins_eval Join_h_def clone_h_def copy_vals_def
      append_string_def Let_def)

lemma second_child_eval:
  "second_child =
     (\<lparr>table = ''users'',
       config = \<lparr>SelectFields = \<lparr>arr = 0, len = 0, cap = 0\<rparr>, WhereClause = [], OrderBy = [],
                 Limit = 0, Offset = 0, JoinClauses = \<lparr>arr = 3, len = 4, cap = 4\<rparr>,
                 GroupBy = [], Having = [], ForUpdate = False\<rparr>,
       args = \<lparr>arr = 0, len = 0, cap = 0\<rparr>\<rparr>,
      \<lparr>sarrays = (\<lambda>a. [])
         (1 := [''JOIN a ON a.u = users.id''],
          2 := [''JOIN a ON a.u = users.id'', ''JOIN b ON b.u = users.id''],
          3 := [''JOIN a ON a.u = users.id'', ''JOIN b ON b.u = users.id'',
                ''JOIN c ON c.u = users.id'', ''JOIN y ON y.u = users.id'']),
       varrays = (\<lambda>a. []), next_addr = 4\<rparr>)"
  by (simp add: second_child_def first_child_eval three_joins_eval Join_h_def clone_h_def
      copy_vals_def append_string_def Let_def)

text \<open>
  Claim C3 at the failing input. A base query with three joins has a backing array of capacity
  four. A first query derived from it with a fourth join renders that join; after a second
  query is derived from the same base with another join, the first query renders the join of
  the second: both wrote the same slot of the shared array. The base itself renders its three
  joins throughout.
\<close>

theorem C3_join_overwrites_sibling:
  "render_h (snd three_joins) (fst three_joins) =
     ''SELECT * FROM users JOIN a ON a.u = users.id JOIN b ON b.u = users.id JOIN c ON c.u = users.id'' \<and>
   render_h (snd first_child) (fst first_child) =
     ''SELECT * FROM users JOIN a ON a.u = users.id JOIN b ON b.u = users.id JOIN c ON c.u = users.id JOIN x ON x.u = users.id'' \<and>
   render_h (snd second_child) (fst second_child) =
     ''SELECT * FROM users JOIN a ON a.u = users.id JOIN b ON b.u = users.id JOIN c ON c.u = users.id JOIN y ON y.u = users.id'' \<and>
   render_h (snd second_child) (fst first_child) =
     ''SELECT * FROM users JOIN a ON a.u = users.id JOIN b ON b.u = users.id JOIN c ON c.u = users.id JOIN y ON y.u = users.id'' \<and>
   render_h (snd second_child) (fst three_joins) =
     ''SELECT * FROM users JOIN a ON a.u = users.id JOIN b ON b.u = users.id JOIN c ON c.u = users.id''"
  by (simp add: three_joins_eval first_child_eval second_child_eval render_h_def shown_def
      strings_of_def vals_of_def buildSelectQuery_def Let_def)


end
